theory Spec2Isabelle
  imports Main "HOL-Library.AList" "HOL-Library.Word"
begin

chapter \<open>The model of \<^verbatim>\<open>src/rdm/Indexer.cpp\<close>\<close>

text \<open>
  Conventions of the embedding.
  \<^item> \<^verbatim>\<open>QByteArray\<close> and \<^verbatim>\<open>Path\<close> are \<open>string\<close>; \<^verbatim>\<open>QList\<close> is \<open>list\<close>;
    \<^verbatim>\<open>QSet\<close> is \<open>set\<close> (the list of its elements in iteration order where the code
    iterates over it and changes state on the way); a \<^verbatim>\<open>QHash\<close> or a LevelDB table is an
    association list in its iteration order, read through \<open>map_of\<close>, written through
    \<open>AList.update\<close> and \<open>AList.delete\<close>.
  \<^item> C++ \<^verbatim>\<open>int\<close> counters are mathematical integers: signed overflow is undefined in
    C++, so the model speaks of runs in which \<^verbatim>\<open>lastJobId\<close> and \<^verbatim>\<open>jobCounter\<close> stay
    below \<open>2^31 - 1\<close>.
  \<^item> \<^verbatim>\<open>Q_ASSERT\<close> is a checked assertion, as in a debug build: a failing one ends the
    function with the result \<open>Inl AssertionFailed\<close>.
  \<^item> Calls that leave the function (waking a condition variable, starting a pool job,
    emitting a signal, logging) are returned as a list of effects, in program order.
\<close>

section \<open>Job coordinator: \<^verbatim>\<open>IndexerImpl\<close>, \<^verbatim>\<open>Indexer::index\<close>, \<^verbatim>\<open>Indexer::onJobDone\<close>\<close>

datatype error = AssertionFailed | InvalidIterator | UnopenedDatabase

text \<open>The constructor arguments of an \<^verbatim>\<open>IndexerJob\<close>.\<close>

record job =
  mId :: int
  mPath :: string
  mIn :: string
  mArgs :: "string list"

datatype effect =
    TimerStart
  | PoolStart job
  | CondWakeAll
  | SyncerNotify
  | LogElapsed
  | IndexingDone int

text \<open>The fields of \<^verbatim>\<open>IndexerImpl\<close> that the coordinator and the jobs read and write under
  \<^verbatim>\<open>implMutex\<close>, and the default arguments.\<close>

record indexer =
  jobCounter :: int
  indexing :: "string set"
  pchHeaderError :: "string set"
  implPath :: string
  lastJobId :: int
  jobs :: "(int \<times> job) list"
  timerRunning :: bool
  defaultArgs :: "string list"

definition SYNCINTERVAL :: int where
  "SYNCINTERVAL = 10"

text \<open>The state the constructor \<^verbatim>\<open>Indexer::Indexer(path)\<close> leaves, for a path that starts
  with a slash (the path gets its trailing slash).\<close>

definition Indexer :: "string \<Rightarrow> indexer" where
  "Indexer p =
     \<lparr> jobCounter = 0, indexing = {}, pchHeaderError = {},
       implPath = (if p \<noteq> [] \<and> last p = CHR ''/'' then p else p @ ''/''),
       lastJobId = 0, jobs = [], timerRunning = False, defaultArgs = [] \<rparr>"

definition contains_id :: "(int \<times> job) list \<Rightarrow> int \<Rightarrow> bool" where
  "contains_id js i = (i \<in> fst ` set js)"

text \<open>\<^verbatim>\<open>do { id = lastJobId++; } while (jobs.contains(id));\<close> returns the id and the new
  value of \<^verbatim>\<open>lastJobId\<close>.\<close>

function next_id :: "(int \<times> job) list \<Rightarrow> int \<Rightarrow> int \<times> int" where
  "next_id js l = (if contains_id js l then next_id js (l + 1) else (l, l + 1))"
  by pat_completeness auto
termination
proof (relation "measure (\<lambda>(js, l). length (filter (\<lambda>k. l \<le> k) (map fst js)))")
  show "wf (measure (\<lambda>(js, l). length (filter (\<lambda>k. l \<le> k) (map fst js))))"
    by simp
next
  fix js :: "(int \<times> job) list" and l :: int
  assume c: "contains_id js l"
  let ?ks = "map fst js"
  let ?xs = "filter (\<lambda>k. l \<le> k) ?ks"
  have mem: "l \<in> set ?xs"
    using c by (auto simp: contains_id_def)
  have eq: "(\<lambda>k. l \<le> k \<and> l + 1 \<le> k) = (\<lambda>k::int. l + 1 \<le> k)"
    by auto
  have "length (filter (\<lambda>k. l + 1 \<le> k) ?xs) < length ?xs"
    by (rule length_filter_less [OF mem]) simp
  then have "length (filter (\<lambda>k. l + 1 \<le> k) ?ks) < length ?xs"
    unfolding filter_filter eq .
  then show "((js, l + 1), (js, l)) \<in>
      measure (\<lambda>(js, l). length (filter (\<lambda>k. l \<le> k) (map fst js)))"
    unfolding in_measure prod.case .
qed

declare next_id.simps [simp del]

definition index :: "indexer \<Rightarrow> string \<Rightarrow> string list \<Rightarrow> int \<times> effect list \<times> indexer" where
  "index s input arguments =
     (if input \<in> indexing s then (- 1, [], s)
      else
        (case next_id (jobs s) (lastJobId s) of
          (i, l) \<Rightarrow>
            let j = \<lparr> mId = i, mPath = implPath s, mIn = input, mArgs = arguments \<rparr>
            in (i,
                (if \<not> timerRunning s then [TimerStart] else []) @ [PoolStart j],
                s \<lparr> lastJobId := l,
                    indexing := insert input (indexing s),
                    jobs := AList.update i j (jobs s),
                    timerRunning := True \<rparr>)))"

definition onJobDone :: "indexer \<Rightarrow> int \<Rightarrow> string \<Rightarrow> error + effect list \<times> indexer" where
  "onJobDone s i input =
     (let js = AList.delete i (jobs s);
          woken = (if input \<in> indexing s then [CondWakeAll] else []);
          s1 = s \<lparr> jobs := js, indexing := indexing s - {input},
                   jobCounter := jobCounter s + 1 \<rparr>
      in if js = [] \<or> jobCounter s1 = SYNCINTERVAL then
           (if js = [] then
              (if timerRunning s1
               then Inr (woken @ [SyncerNotify, LogElapsed, IndexingDone i],
                         s1 \<lparr> timerRunning := False \<rparr>)
               else Inl AssertionFailed)
            else Inr (woken @ [IndexingDone i], s1))
         else Inr (woken @ [IndexingDone i], s1))"

text \<open>The state after \<^verbatim>\<open>index("/a.cpp", [])\<close> on a fresh indexer and the completion of
  that job: see \<open>after_one_job_reached\<close>.\<close>

definition one_job :: job where
  "one_job = \<lparr> mId = 0, mPath = ''/p/'', mIn = ''/a.cpp'', mArgs = [] \<rparr>"

definition one_job_running :: indexer where
  "one_job_running =
     \<lparr> jobCounter = 0, indexing = {''/a.cpp''}, pchHeaderError = {}, implPath = ''/p/'',
       lastJobId = 1, jobs = [(0, one_job)], timerRunning = True, defaultArgs = [] \<rparr>"

definition after_one_job :: indexer where
  "after_one_job =
     \<lparr> jobCounter = 1, indexing = {}, pchHeaderError = {}, implPath = ''/p/'',
       lastJobId = 1, jobs = [], timerRunning = False, defaultArgs = [] \<rparr>"

text \<open>The coordinator's calls arrive one at a time (\<^verbatim>\<open>index\<close> under the mutex,
  \<^verbatim>\<open>onJobDone\<close> through the queued connection); a history of calls is run from left to
  right.\<close>

datatype request = Index string "string list" | JobDone int string

fun serve :: "indexer \<Rightarrow> request \<Rightarrow> indexer" where
  "serve s (Index input arguments) = snd (snd (index s input arguments))"
| "serve s (JobDone i input) = (case onJobDone s i input of Inr (es, s') \<Rightarrow> s' | Inl e \<Rightarrow> s)"

text \<open>Two jobs in flight after nine completions: see \<open>nine_done_reached\<close>.\<close>

definition nine_done :: indexer where
  "nine_done =
     \<lparr> jobCounter = 9, indexing = {''/j.cpp'', ''/k.cpp''}, pchHeaderError = {},
       implPath = ''/p/'', lastJobId = 11,
       jobs = [(9, \<lparr> mId = 9, mPath = ''/p/'', mIn = ''/j.cpp'', mArgs = [] \<rparr>),
               (10, \<lparr> mId = 10, mPath = ''/p/'', mIn = ''/k.cpp'', mArgs = [] \<rparr>)],
       timerRunning = True, defaultArgs = [] \<rparr>"


section \<open>Data model: \<^verbatim>\<open>RTags::Location\<close>, \<^verbatim>\<open>Rdm::CursorInfo\<close>, the four tables\<close>

text \<open>The types \<^verbatim>\<open>RTags::Location\<close> and \<^verbatim>\<open>Rdm::CursorInfo\<close> are declared in headers that
  are not part of the source at hand; their fields are the ones \<^verbatim>\<open>Indexer.cpp\<close> reads and
  writes, typed as the specification's data model gives them.\<close>

record Location =
  path :: string
  offset :: "32 word"

record CursorInfo =
  kind :: nat
  symbolLength :: nat
  target :: "Location option"
  references :: "Location set"

definition nullCursorInfo :: CursorInfo where
  "nullCursorInfo = \<lparr> kind = 0, symbolLength = 0, target = None, references = {} \<rparr>"

text \<open>Modelled from the spec: \<^verbatim>\<open>CursorInfo::unite\<close> (declared in \<^verbatim>\<open>Rdm.h\<close>). The union of the
  references; the target is filled if currently empty; kind and symbol length come from
  whichever side has a non-zero symbol length, the receiver first. It returns whether any
  field changed, and the merged record.\<close>

definition unite :: "CursorInfo \<Rightarrow> CursorInfo \<Rightarrow> bool \<times> CursorInfo" where
  "unite cur other =
     (let merged =
        \<lparr> kind = (if symbolLength cur = 0 \<and> symbolLength other \<noteq> 0 then kind other else kind cur),
          symbolLength = (if symbolLength cur = 0 then symbolLength other else symbolLength cur),
          target = (if target cur = None then target other else target cur),
          references = references cur \<union> references other \<rparr>
      in (merged \<noteq> cur, merged))"

text \<open>Modelled from the spec: \<^verbatim>\<open>CursorInfo::dirty\<close> (declared in \<^verbatim>\<open>Rdm.h\<close>). It removes every
  reference whose path is in the dirty set and clears the target if its path is in the
  dirty set. It returns whether the record changed, and the record.\<close>

definition cursor_dirty :: "string set \<Rightarrow> CursorInfo \<Rightarrow> bool \<times> CursorInfo" where
  "cursor_dirty d ci =
     (let cleaned =
        ci \<lparr> target := (case target ci of
                          None \<Rightarrow> None
                        | Some t \<Rightarrow> if path t \<in> d then None else Some t),
             references := Set.filter (\<lambda>r. path r \<notin> d) (references ci) \<rparr>
      in (cleaned \<noteq> ci, cleaned))"

text \<open>Modelled from the spec: \<^verbatim>\<open>Location::key(Padded)\<close> (declared in \<^verbatim>\<open>RTags.h\<close>), the
  path, a comma and the offset in decimal, zero-padded to nine digits.\<close>

definition digit :: "nat \<Rightarrow> char" where
  "digit n = ''0123456789'' ! (n mod 10)"

definition padded_key :: "Location \<Rightarrow> string" where
  "padded_key l =
     (let n = unat (offset l)
      in path l @ '','' @
         (if n < 1000000000 then [] else [digit (n div 1000000000)]) @
         map (\<lambda>d. digit (n div d))
           [100000000, 10000000, 1000000, 100000, 10000, 1000, 100, 10, 1])"

datatype Database = Symbol | SymbolName | Dependency | FileInformation

text \<open>The project's store: one ordered table per database. Whether a table can be opened by
  \<^verbatim>\<open>LevelDB::open\<close> is a parameter \<open>opens\<close> of the functions that open it.\<close>

record store =
  symbolDb :: "(string \<times> CursorInfo) list"
  symbolNameDb :: "(string \<times> Location set) list"
  dependencyDb :: "(string \<times> string set) list"
  fileInformationDb :: "(string \<times> string list) list"

text \<open>A \<^verbatim>\<open>leveldb::WriteBatch\<close> is the list of its staged operations; \<^verbatim>\<open>Write\<close> applies
  them in order.\<close>

datatype ('k, 'v) batch_op = Put 'k 'v | Delete 'k

fun apply_op :: "('k, 'v) batch_op \<Rightarrow> ('k \<times> 'v) list \<Rightarrow> ('k \<times> 'v) list" where
  "apply_op (Put k v) t = AList.update k v t"
| "apply_op (Delete k) t = AList.delete k t"

definition Write :: "('k, 'v) batch_op list \<Rightarrow> ('k \<times> 'v) list \<Rightarrow> ('k \<times> 'v) list" where
  "Write batch t = fold apply_op batch t"

text \<open>Modelled from the spec: \<^verbatim>\<open>Rdm::readValue<T>(db, key)\<close> (declared in \<^verbatim>\<open>Rdm.h\<close>), the
  point read of the store. The callers below pass no \<^verbatim>\<open>ok\<close> flag, so an absent key reads
  as the default-constructed value \<open>dflt\<close>.\<close>

definition readValue :: "'v \<Rightarrow> ('k \<times> 'v) list \<Rightarrow> 'k \<Rightarrow> 'v" where
  "readValue dflt t k = (case map_of t k of None \<Rightarrow> dflt | Some v \<Rightarrow> v)"

section \<open>Accumulator and flusher: \<^verbatim>\<open>IndexerSyncer\<close>\<close>

record syncer =
  mStopped :: bool
  mSymbols :: "(Location \<times> CursorInfo) list"
  mSymbolNames :: "(string \<times> Location set) list"
  mDependencies :: "(string \<times> string set) list"
  mInformations :: "(string \<times> string list) list"

text \<open>The four locals of one iteration of \<^verbatim>\<open>IndexerSyncer::run\<close>.\<close>

record buffers =
  symbolNames :: "(string \<times> Location set) list"
  symbols :: "(Location \<times> CursorInfo) list"
  dependencies :: "(string \<times> string set) list"
  informations :: "(string \<times> string list) list"

text \<open>The block of \<^verbatim>\<open>run\<close> that holds the mutex. \<^verbatim>\<open>mCond.wait\<close> releases the mutex, so the
  shared state may differ at each wake-up: the second argument lists the shared state found
  at each return from \<^verbatim>\<open>wait\<close> (by notification or after the ten seconds). The block ends
  by a \<^verbatim>\<open>return\<close> (\<open>Stopped\<close>), or with the four buffers swapped into the locals
  (\<open>Swapped\<close>, with the shared state left behind); \<open>Waiting\<close> says that the thread is still
  blocked in \<^verbatim>\<open>wait\<close> when the listed wake-ups are used up. Each result carries the
  shared state at that point.\<close>

datatype locked = Stopped syncer | Waiting syncer | Swapped buffers syncer

definition swap_out :: "syncer \<Rightarrow> locked" where
  "swap_out s =
     Swapped
       \<lparr> symbolNames = mSymbolNames s, symbols = mSymbols s,
         dependencies = mDependencies s, informations = mInformations s \<rparr>
       (s \<lparr> mSymbolNames := [], mSymbols := [], mDependencies := [], mInformations := [] \<rparr>)"

fun wait_loop :: "syncer \<Rightarrow> syncer list \<Rightarrow> locked" where
  "wait_loop s [] =
     (if mSymbols s = [] \<and> mSymbolNames s = [] then Waiting s else swap_out s)"
| "wait_loop s (s' # wakeups) =
     (if mSymbols s = [] \<and> mSymbolNames s = [] then
        (if mStopped s' then Stopped s' else wait_loop s' wakeups)
      else swap_out s)"

definition locked_block :: "syncer \<Rightarrow> syncer list \<Rightarrow> locked" where
  "locked_block s wakeups = (if mStopped s then Stopped s else wait_loop s wakeups)"

text \<open>The puts staged for the SymbolName table, the Symbol table and the Dependency table.
  The flag \<^verbatim>\<open>changed\<close> of the source is set exactly when a put is staged, so it is the
  batch being non-empty.\<close>

fun stage_symbolNames ::
  "(string \<times> Location set) list \<Rightarrow> (string \<times> Location set) list
    \<Rightarrow> (string, Location set) batch_op list" where
  "stage_symbolNames db [] = []"
| "stage_symbolNames db ((key, added) # rest) =
     (let current = readValue {} db key;
          oldSize = card current;
          current' = current \<union> added
      in (if card current' \<noteq> oldSize then [Put key current'] else [])
         @ stage_symbolNames db rest)"

fun stage_symbols ::
  "(string \<times> CursorInfo) list \<Rightarrow> (Location \<times> CursorInfo) list
    \<Rightarrow> (string, CursorInfo) batch_op list" where
  "stage_symbols db [] = []"
| "stage_symbols db ((loc, added) # rest) =
     (let key = padded_key loc;
          current = readValue nullCursorInfo db key
      in (case unite current added of
            (c, current') \<Rightarrow> (if c then [Put key current'] else []))
         @ stage_symbols db rest)"

fun stage_dependencies ::
  "(string \<times> string set) list \<Rightarrow> (string \<times> string set) list
    \<Rightarrow> (string, string set) batch_op list" where
  "stage_dependencies db [] = []"
| "stage_dependencies db ((key, added) # rest) =
     (let current = readValue {} db key;
          oldSize = card current;
          current' = current \<union> added
      in (if card current' > oldSize then [Put key current'] else [])
         @ stage_dependencies db rest)"

definition commit_if_changed :: "('k, 'v) batch_op list \<Rightarrow> ('k \<times> 'v) list \<Rightarrow> ('k \<times> 'v) list" where
  "commit_if_changed batch t = (if batch \<noteq> [] then Write batch t else t)"

text \<open>The rest of the iteration, on the swapped-out locals. \<open>Returned\<close>: \<^verbatim>\<open>run\<close> has returned
  (a table could not be opened) and the thread has ended, its locals with it; \<open>Looping\<close>:
  the iteration is over and \<^verbatim>\<open>run\<close> goes back to the mutex.\<close>

datatype thread = Looping | Returned | Blocked

definition flush :: "(Database \<Rightarrow> bool) \<Rightarrow> store \<Rightarrow> buffers \<Rightarrow> store \<times> thread" where
  "flush opens st b =
     (if symbolNames b \<noteq> [] \<and> \<not> opens SymbolName then (st, Returned)
      else
        let st1 = (if symbolNames b \<noteq> []
                   then st \<lparr> symbolNameDb :=
                          commit_if_changed (stage_symbolNames (symbolNameDb st) (symbolNames b))
                            (symbolNameDb st) \<rparr>
                   else st)
        in if symbols b \<noteq> [] \<and> \<not> opens Symbol then (st1, Returned)
           else
             let st2 = (if symbols b \<noteq> []
                        then st1 \<lparr> symbolDb :=
                               commit_if_changed (stage_symbols (symbolDb st1) (symbols b))
                                 (symbolDb st1) \<rparr>
                        else st1)
             in if dependencies b \<noteq> [] \<and> \<not> opens Dependency then (st2, Returned)
                else
                  let st3 = (if dependencies b \<noteq> []
                             then st2 \<lparr> dependencyDb :=
                                    commit_if_changed
                                      (stage_dependencies (dependencyDb st2) (dependencies b))
                                      (dependencyDb st2) \<rparr>
                             else st2)
                  in if informations b \<noteq> [] then
                       (if \<not> opens FileInformation then (st3, Returned)
                        else (st3 \<lparr> fileInformationDb :=
                                      Write (map (\<lambda>(key, args). Put key args) (informations b))
                                        (fileInformationDb st3) \<rparr>,
                              Looping))
                     else (st3, Looping))"

text \<open>One iteration of the loop of \<^verbatim>\<open>run\<close>: the store, the shared state and what the thread
  does next.\<close>

definition run_iteration ::
  "(Database \<Rightarrow> bool) \<Rightarrow> store \<Rightarrow> syncer \<Rightarrow> syncer list \<Rightarrow> store \<times> syncer \<times> thread" where
  "run_iteration opens st s wakeups =
     (case locked_block s wakeups of
        Stopped s' \<Rightarrow> (st, s', Returned)
      | Waiting s' \<Rightarrow> (st, s', Blocked)
      | Swapped b s' \<Rightarrow> (case flush opens st b of (st', t) \<Rightarrow> (st', s', t)))"

text \<open>Example states of the accumulator and of the store.\<close>

definition foo_def_loc :: Location where
  "foo_def_loc = \<lparr> path = ''/a.cpp'', offset = 4 \<rparr>"

definition foo_info :: CursorInfo where
  "foo_info = \<lparr> kind = 8, symbolLength = 3, target = None, references = {foo_def_loc} \<rparr>"

definition idle_syncer :: syncer where
  "idle_syncer =
     \<lparr> mStopped = False, mSymbols = [], mSymbolNames = [], mDependencies = [],
       mInformations = [] \<rparr>"

definition deps_only :: syncer where
  "deps_only = idle_syncer \<lparr> mDependencies := [(''/a.h'', {''/a.cpp''})] \<rparr>"

definition names_pending :: syncer where
  "names_pending =
     idle_syncer \<lparr> mSymbolNames := [(''foo'', {foo_def_loc})],
                   mInformations := [(''/a.cpp'', [''-x'', ''c++''])] \<rparr>"

definition empty_store :: store where
  "empty_store = \<lparr> symbolDb = [], symbolNameDb = [], dependencyDb = [], fileInformationDb = [] \<rparr>"

definition no_SymbolName :: "Database \<Rightarrow> bool" where
  "no_SymbolName d = (d \<noteq> SymbolName)"

definition opens_all :: "Database \<Rightarrow> bool" where
  "opens_all d = True"

definition a_cpp_store :: store where
  "a_cpp_store =
     \<lparr> symbolDb = [(padded_key foo_def_loc, foo_info)],
       symbolNameDb = [(''foo'', {foo_def_loc})],
       dependencyDb = [(''/a.cpp'', {''/a.cpp''})],
       fileInformationDb = [(''/a.cpp'', [''-x'', ''c++''])] \<rparr>"

definition a_cpp_again :: buffers where
  "a_cpp_again =
     \<lparr> symbolNames = [(''foo'', {foo_def_loc})],
       symbols = [(foo_def_loc, foo_info)],
       dependencies = [(''/a.cpp'', {''/a.cpp''})],
       informations = [(''/a.cpp'', [''-x'', ''c++''])] \<rparr>"


section \<open>Parse job: the wait for precompiled headers in \<^verbatim>\<open>IndexerJob::run\<close>\<close>

text \<open>\<^verbatim>\<open>extractPchFiles\<close>: the loop over the arguments, with its flag \<^verbatim>\<open>nextIsPch\<close>.\<close>

fun extractPchFiles_from :: "bool \<Rightarrow> string list \<Rightarrow> string list" where
  "extractPchFiles_from nextIsPch [] = []"
| "extractPchFiles_from nextIsPch (arg # args) =
     (if arg = [] then extractPchFiles_from nextIsPch args
      else if nextIsPch then arg # extractPchFiles_from False args
      else if arg = ''-include-pch'' then extractPchFiles_from True args
      else extractPchFiles_from nextIsPch args)"

definition extractPchFiles :: "string list \<Rightarrow> string list" where
  "extractPchFiles args = extractPchFiles_from False args"

text \<open>\<^verbatim>\<open>QList::indexOf\<close>: the first position of the value, or \<open>-1\<close>. \<^verbatim>\<open>QList::removeAt\<close>:
  removes the item at a valid position (the calls below are guarded by the assertion).\<close>

fun indexOf :: "'a list \<Rightarrow> 'a \<Rightarrow> int" where
  "indexOf [] x = - 1"
| "indexOf (y # ys) x =
     (if y = x then 0 else (if indexOf ys x < 0 then - 1 else indexOf ys x + 1))"

definition removeAt :: "int \<Rightarrow> 'a list \<Rightarrow> 'a list" where
  "removeAt i xs =
     (if 0 \<le> i \<and> i < int (length xs) then take (nat i) xs @ drop (nat i + 1) xs else xs)"

text \<open>The \<^verbatim>\<open>foreach\<close> over \<^verbatim>\<open>pchHeaders\<close> inside the \<^verbatim>\<open>do\<close> loop, under \<^verbatim>\<open>implMutex\<close>: it
  returns the flag \<^verbatim>\<open>wait\<close> and the arguments.\<close>

fun pch_pass :: "indexer \<Rightarrow> string list \<Rightarrow> string list \<Rightarrow> error + bool \<times> string list" where
  "pch_pass s [] args = Inr (False, args)"
| "pch_pass s (pchHeader # rest) args =
     (if pchHeader \<in> pchHeaderError s then
        (let idx = indexOf args pchHeader
         in if idx > 0 then pch_pass s rest (removeAt (idx - 1) (removeAt idx args))
            else Inl AssertionFailed)
      else if pchHeader \<in> indexing s then Inr (True, args)
      else pch_pass s rest args)"

text \<open>The \<^verbatim>\<open>do ... while (wait)\<close> loop. \<^verbatim>\<open>implCond.wait\<close> releases the mutex: the list gives
  the coordinator state found at each wake-up. \<open>Parsing\<close>: the loop is left, with the state
  read by its last pass and the arguments; \<open>WaitingForPch\<close>: the job is still blocked in
  \<^verbatim>\<open>wait\<close> when the listed wake-ups are used up; \<open>Failed\<close>: the assertion failed.\<close>

datatype pch_gate = Failed error | Parsing indexer "string list" | WaitingForPch indexer "string list"

fun pch_wait :: "indexer \<Rightarrow> indexer list \<Rightarrow> string list \<Rightarrow> string list \<Rightarrow> pch_gate" where
  "pch_wait s [] pchHeaders args =
     (case pch_pass s pchHeaders args of
        Inl e \<Rightarrow> Failed e
      | Inr (wait, args') \<Rightarrow> if wait then WaitingForPch s args' else Parsing s args')"
| "pch_wait s (s' # wakeups) pchHeaders args =
     (case pch_pass s pchHeaders args of
        Inl e \<Rightarrow> Failed e
      | Inr (wait, args') \<Rightarrow>
          if wait then pch_wait s' wakeups pchHeaders args' else Parsing s args')"

text \<open>The head of \<^verbatim>\<open>IndexerJob::run\<close>, up to the point where parsing starts.\<close>

definition run_until_parse :: "job \<Rightarrow> indexer \<Rightarrow> indexer list \<Rightarrow> pch_gate" where
  "run_until_parse j s wakeups =
     (let args = mArgs j @ defaultArgs s;
          pchHeaders = extractPchFiles args
      in if pchHeaders \<noteq> [] then pch_wait s wakeups pchHeaders args else Parsing s args)"



definition d_cpp_job :: job where
  "d_cpp_job =
     \<lparr> mId = 1, mPath = ''/p/'', mIn = ''/d.cpp'',
       mArgs = [''-include-pch'', ''/h1.h'', ''-include-pch'', ''/h2.h''] \<rparr>"

definition h1_failed_h2_running :: indexer where
  "h1_failed_h2_running =
     \<lparr> jobCounter = 1, indexing = {''/h2.h'', ''/d.cpp''}, pchHeaderError = {''/h1.h''},
       implPath = ''/p/'', lastJobId = 3,
       jobs = [(1, d_cpp_job),
               (2, \<lparr> mId = 2, mPath = ''/p/'', mIn = ''/h2.h'', mArgs = [''-x'', ''c++-header''] \<rparr>)],
       timerRunning = True, defaultArgs = [] \<rparr>"

definition h1_failed_h2_done :: indexer where
  "h1_failed_h2_done =
     h1_failed_h2_running \<lparr> jobCounter := 2, indexing := {''/d.cpp''}, jobs := [(1, d_cpp_job)] \<rparr>"


section \<open>Parse job: \<^verbatim>\<open>inclusionVisitor\<close>\<close>

text \<open>The fields of the job that the visitor writes.\<close>

record inclusions =
  job_mDependencies :: "(string \<times> string set) list"
  job_mPchDependencies :: "string set"

text \<open>\<^verbatim>\<open>QByteArray::contains\<close>: the second byte array occurs in the first.\<close>

fun contains :: "string \<Rightarrow> string \<Rightarrow> bool" where
  "contains [] ba = (ba = [])"
| "contains (c # cs) ba = (take (length ba) (c # cs) = ba \<or> contains cs ba)"

text \<open>\<^verbatim>\<open>hash[key].insert(value)\<close> on a \<^verbatim>\<open>QHash\<close> of sets: an absent key starts from the empty
  set.\<close>

definition hash_insert :: "'k \<Rightarrow> 'a \<Rightarrow> ('k \<times> 'a set) list \<Rightarrow> ('k \<times> 'a set) list" where
  "hash_insert key x h = AList.update key (insert x (readValue {} h key)) h"

text \<open>The visitor. \<open>canonicalized\<close> stands for \<^verbatim>\<open>Path::canonicalized\<close>, which reads the file
  system; \<open>cstr\<close> is the name of the included file and \<open>include_stack\<close> the names of the files
  of the stack's locations, in the order of the array.\<close>

definition inclusionVisitor ::
  "(string \<Rightarrow> string) \<Rightarrow> string list \<Rightarrow> bool \<Rightarrow> string \<Rightarrow> string list \<Rightarrow> inclusions \<Rightarrow> inclusions" where
  "inclusionVisitor canonicalized dflt mIsPch cstr include_stack job =
     (if take 5 cstr \<noteq> ''/usr/'' \<or> take 10 cstr = ''/usr/home/'' then
        (let path = canonicalized cstr
         in if \<exists>arg \<in> set dflt. contains arg path then job
            else
              let d1 = fold (\<lambda>originatingFn. hash_insert path (canonicalized originatingFn))
                         include_stack (job_mDependencies job);
                  d2 = (if include_stack = [] then hash_insert path path d1 else d1)
              in \<lparr> job_mDependencies = d2,
                   job_mPchDependencies =
                     (if mIsPch then insert path (job_mPchDependencies job)
                      else job_mPchDependencies job) \<rparr>)
      else job)"

text \<open>\<^verbatim>\<open>clang_getInclusions\<close> calls the visitor once for every file of the translation unit,
  the main file included (with an empty stack); the list is what the parser reports.\<close>

definition getInclusions ::
  "(string \<Rightarrow> string) \<Rightarrow> string list \<Rightarrow> bool \<Rightarrow> (string \<times> string list) list \<Rightarrow> inclusions \<Rightarrow> inclusions" where
  "getInclusions canonicalized dflt mIsPch reported job =
     fold (\<lambda>(cstr, include_stack). inclusionVisitor canonicalized dflt mIsPch cstr include_stack)
       reported job"

definition new_job :: inclusions where
  "new_job = \<lparr> job_mDependencies = [], job_mPchDependencies = {} \<rparr>"

definition same_path :: "string \<Rightarrow> string" where
  "same_path p = p"


section \<open>Watch registry: \<^verbatim>\<open>Indexer::onDirectoryChanged\<close>\<close>

text \<open>The file system as the handler reads it (\<^verbatim>\<open>Path::exists\<close>, \<^verbatim>\<open>Path::lastModified\<close>).\<close>

record filesystem =
  file_exists :: "string \<Rightarrow> bool"
  lastModified :: "string \<Rightarrow> 64 word"

text \<open>\<^verbatim>\<open>Path::fileName\<close>: the component after the last slash.\<close>

definition fileName :: "string \<Rightarrow> string" where
  "fileName p = rev (takeWhile (\<lambda>c. c \<noteq> CHR ''/'') (rev p))"

fun isPch_from :: "bool \<Rightarrow> string list \<Rightarrow> bool" where
  "isPch_from nextIsX [] = False"
| "isPch_from nextIsX (arg # args) =
     (if nextIsX then (arg = ''c++-header'' \<or> arg = ''c-header'')
      else if arg = ''-x'' then isPch_from True args
      else isPch_from nextIsX args)"

definition isPch :: "string list \<Rightarrow> bool" where
  "isPch args = isPch_from False args"

text \<open>The fields of \<^verbatim>\<open>IndexerImpl\<close> that the handler uses. A \<^verbatim>\<open>QSet\<close> that the handler
  iterates is the list of its elements in iteration order.\<close>

record registry =
  watched :: "(string \<times> (string \<times> 64 word) list) list"
  impl_dependencies :: "(string \<times> string list) list"

text \<open>The locals of the handler. \<open>it\<close> is the position of the iterator \<^verbatim>\<open>it\<close> in \<^verbatim>\<open>watched\<close>
  (the length of the list is \<^verbatim>\<open>end()\<close>); \<open>kept\<close> collects the pairs of the directory's set
  that were not erased.\<close>

record scan =
  it :: nat
  kept :: "(string \<times> 64 word) list"
  dirtyFiles :: "string set"
  pending :: "string list"
  toIndex :: "(string \<times> string list) list"
  toIndexPch :: "(string \<times> string list) list"

record DirtyJob =
  mDirty :: "string set"
  mToIndexPch :: "(string \<times> string list) list"
  mToIndex :: "(string \<times> string list) list"

text \<open>\<^verbatim>\<open>foreach (const Path& path, dit.value())\<close>.\<close>

fun mark_dependents ::
  "filesystem \<Rightarrow> (string \<times> string list) list \<Rightarrow> string list \<Rightarrow> scan \<Rightarrow> scan" where
  "mark_dependents fs db [] sc = sc"
| "mark_dependents fs db (dependent # rest) sc =
     (let sc1 = sc \<lparr> dirtyFiles := insert dependent (dirtyFiles sc) \<rparr>
      in mark_dependents fs db rest
           (if file_exists fs dependent then
              (case map_of db dependent of
                 None \<Rightarrow> sc1
               | Some args \<Rightarrow>
                   if isPch args
                   then sc1 \<lparr> toIndexPch := AList.update dependent args (toIndexPch sc1) \<rparr>
                   else sc1 \<lparr> toIndex := AList.update dependent args (toIndex sc1) \<rparr>)
            else sc1))"

text \<open>The \<^verbatim>\<open>while (wit != wend)\<close> loop over the pairs of the directory found at position
  \<open>it0\<close>. \<^verbatim>\<open>it.value().erase(wit)\<close> erases from the set that \<^verbatim>\<open>it\<close> points to an iterator of
  the directory's set: once \<^verbatim>\<open>it\<close> has moved this is an erase through an iterator of another
  container (or through \<^verbatim>\<open>end()\<close>), which is undefined; the model stops there with
  \<open>InvalidIterator\<close>.\<close>

fun scan_watched ::
  "filesystem \<Rightarrow> (string \<times> string list) list \<Rightarrow> (string \<times> string list) list \<Rightarrow> string \<Rightarrow> nat
    \<Rightarrow> (string \<times> 64 word) list \<Rightarrow> scan \<Rightarrow> error + scan" where
  "scan_watched fs db deps p it0 [] sc = Inr sc"
| "scan_watched fs db deps p it0 ((name, mtime) # rest) sc =
     (let file = p @ name
      in if \<not> file_exists fs file \<or> lastModified fs file \<noteq> mtime then
           (if it sc \<noteq> it0 then Inl InvalidIterator
            else
              let sc1 = sc \<lparr> dirtyFiles := insert file (dirtyFiles sc),
                              pending := pending sc @ [file] \<rparr>
              in (case map_of deps file of
                    None \<Rightarrow> scan_watched fs db deps p it0 rest (sc1 \<lparr> it := it sc1 + 1 \<rparr>)
                  | Some paths \<Rightarrow>
                      if paths = [] then Inl AssertionFailed
                      else scan_watched fs db deps p it0 rest (mark_dependents fs db paths sc1)))
         else scan_watched fs db deps p it0 rest (sc \<lparr> kept := kept sc @ [(name, mtime)] \<rparr>))"

fun position :: "'k \<Rightarrow> ('k \<times> 'v) list \<Rightarrow> nat option" where
  "position k [] = None"
| "position k ((k', v) # rest) = (if k' = k then Some 0 else map_option Suc (position k rest))"

text \<open>The handler. \<open>db\<close> is the FileInformation table. The result is the registry and the
  \<^verbatim>\<open>DirtyJob\<close> handed to the pool, if any. After the loop the pending files are inserted into
  the set that \<^verbatim>\<open>it\<close> points to; through \<^verbatim>\<open>end()\<close> this is undefined.\<close>

definition onDirectoryChanged ::
  "filesystem \<Rightarrow> (Database \<Rightarrow> bool) \<Rightarrow> (string \<times> string list) list \<Rightarrow> registry \<Rightarrow> string
    \<Rightarrow> error + registry \<times> DirtyJob option" where
  "onDirectoryChanged fs opens db r p =
     (if p = [] \<or> last p \<noteq> CHR ''/'' then Inl AssertionFailed
      else
        (case position p (watched r) of
           None \<Rightarrow> Inr (r, None)
         | Some it0 \<Rightarrow>
             if \<not> opens FileInformation then Inr (r, None)
             else
               (case scan_watched fs db (impl_dependencies r) p it0 (snd (watched r ! it0))
                       \<lparr> it = it0, kept = [], dirtyFiles = {}, pending = [],
                         toIndex = [], toIndexPch = [] \<rparr> of
                  Inl e \<Rightarrow> Inl e
                | Inr sc \<Rightarrow>
                    let w = (watched r)[it0 := (p, kept sc)];
                        job = \<lparr> mDirty = dirtyFiles sc, mToIndexPch = toIndexPch sc,
                                mToIndex = toIndex sc \<rparr>
                    in if pending sc = [] then Inr (r \<lparr> watched := w \<rparr>, Some job)
                       else if it sc < length w then
                         Inr (r \<lparr> watched :=
                                    w[it sc :=
                                        (fst (w ! it sc),
                                         fold (\<lambda>path. List.insert (fileName path, lastModified fs path))
                                           (pending sc) (snd (w ! it sc)))] \<rparr>,
                              Some job)
                       else Inl InvalidIterator)))"

text \<open>Example, written by hand: two watched directories; \<^verbatim>\<open>/src/a.h\<close> is watched and
  has no entry in the dependency map.\<close>

definition src_and_inc :: registry where
  "src_and_inc =
     \<lparr> watched = [(''/src/'', [(''a.h'', 1), (''b.cpp'', 1)]), (''/inc/'', [(''c.h'', 5)])],
       impl_dependencies = [(''/src/b.cpp'', [''/src/b.cpp'']), (''/inc/c.h'', [''/src/b.cpp''])] \<rparr>"

definition b_cpp_information :: "(string \<times> string list) list" where
  "b_cpp_information = [(''/src/b.cpp'', [''-x'', ''c++''])]"

definition both_touched :: filesystem where
  "both_touched =
     \<lparr> file_exists = (\<lambda>p. True),
       lastModified = (\<lambda>p. if p = ''/inc/c.h'' then 5 else 2) \<rparr>"

definition a_h_touched :: filesystem where
  "a_h_touched =
     \<lparr> file_exists = (\<lambda>p. True),
       lastModified = (\<lambda>p. if p = ''/inc/c.h'' then 5 else if p = ''/src/a.h'' then 2 else 1) \<rparr>"


section \<open>Dirty job: \<^verbatim>\<open>DirtyJob::dirty\<close>\<close>

text \<open>\<^verbatim>\<open>QByteArray::lastIndexOf\<close>: the last position of the character, or \<open>-1\<close>.\<close>

definition lastIndexOf :: "'a list \<Rightarrow> 'a \<Rightarrow> int" where
  "lastIndexOf xs x =
     (let i = indexOf (rev xs) x in if i < 0 then - 1 else int (length xs) - 1 - i)"


text \<open>The body of the loop over the Symbol table: what it stages for one entry.\<close>

definition dirty_symbol ::
  "string set \<Rightarrow> string \<Rightarrow> CursorInfo \<Rightarrow> error + (string, CursorInfo) batch_op list" where
  "dirty_symbol d key ci =
     (let comma = lastIndexOf key CHR '',''
      in if comma = - 1 then Inl AssertionFailed
         else
           let p = take (nat comma) key
           in if p \<in> d then Inr [Delete key]
              else
                (case cursor_dirty d ci of
                   (changed, cursorInfo) \<Rightarrow>
                     if changed then
                       (if target cursorInfo = None \<and> references cursorInfo = {}
                        then Inr [Delete key]
                        else Inr [Put key cursorInfo])
                     else Inr []))"

fun sweep_symbols ::
  "string set \<Rightarrow> (string \<times> CursorInfo) list \<Rightarrow> error + (string, CursorInfo) batch_op list" where
  "sweep_symbols d [] = Inr []"
| "sweep_symbols d ((key, ci) # rest) =
     (case dirty_symbol d key ci of
        Inl e \<Rightarrow> Inl e
      | Inr staged \<Rightarrow>
          (case sweep_symbols d rest of
             Inl e \<Rightarrow> Inl e
           | Inr batch \<Rightarrow> Inr (staged @ batch)))"

text \<open>The body of the loop over the SymbolName table.\<close>

definition dirty_symbolName ::
  "string set \<Rightarrow> string \<Rightarrow> Location set \<Rightarrow> (string, Location set) batch_op list" where
  "dirty_symbolName d key locations =
     (let changed = (\<exists>l \<in> locations. path l \<in> d);
          locations' = Set.filter (\<lambda>l. path l \<notin> d) locations
      in if changed then
           (if locations' = {} then [Delete key] else [Put key locations'])
         else [])"

fun sweep_symbolNames ::
  "string set \<Rightarrow> (string \<times> Location set) list \<Rightarrow> (string, Location set) batch_op list" where
  "sweep_symbolNames d [] = []"
| "sweep_symbolNames d ((key, locations) # rest) =
     dirty_symbolName d key locations @ sweep_symbolNames d rest"

text \<open>The two sweeps. Each batch is written when \<^verbatim>\<open>writeBatch\<close> is set, that is, when
  something was staged. When a table does not open the source logs the error and goes on
  to use the database handle; what that does is decided by \<^verbatim>\<open>LevelDB.h\<close>, outside the
  source, and the model stops there with \<open>UnopenedDatabase\<close>.\<close>

definition dirty :: "(Database \<Rightarrow> bool) \<Rightarrow> string set \<Rightarrow> store \<Rightarrow> error + store" where
  "dirty opens d st =
     (if \<not> opens Symbol then Inl UnopenedDatabase
      else
        (case sweep_symbols d (symbolDb st) of
           Inl e \<Rightarrow> Inl e
         | Inr batch \<Rightarrow>
             let st1 = st \<lparr> symbolDb := commit_if_changed batch (symbolDb st) \<rparr>
             in if \<not> opens SymbolName then Inl UnopenedDatabase
                else
                  Inr (st1 \<lparr> symbolNameDb :=
                               commit_if_changed (sweep_symbolNames d (symbolNameDb st1))
                                 (symbolNameDb st1) \<rparr>)))"








chapter \<open>Properties\<close>

section \<open>Job coordinator\<close>

lemma next_id_fst_bounds:
  "lastid \<le> fst (next_id js lastid) \<and> \<not> contains_id js (fst (next_id js lastid))
   \<and> snd (next_id js lastid) = fst (next_id js lastid) + 1"
proof (induction js lastid rule: next_id.induct)
  case (1 js l)
  show ?case
  proof (cases "contains_id js l")
    case True
    with 1 show ?thesis by (simp add: next_id.simps [of js l])
  next
    case False
    then show ?thesis by (simp add: next_id.simps [of js l])
  qed
qed

lemma next_id_skips_used:
  "lastid \<le> k \<Longrightarrow> k < fst (next_id js lastid) \<Longrightarrow> contains_id js k"
proof (induction js lastid rule: next_id.induct)
  case (1 js l)
  show ?case
  proof (cases "contains_id js l")
    case True
    show ?thesis
    proof (cases "k = l")
      case True
      with \<open>contains_id js l\<close> show ?thesis by simp
    next
      case False
      with 1 True show ?thesis by (simp add: next_id.simps [of js l])
    qed
  next
    case False
    with 1 show ?thesis by (simp add: next_id.simps [of js l])
  qed
qed

lemma after_one_job_reached:
  "index (Indexer ''/p'') ''/a.cpp'' [] = (0, [TimerStart, PoolStart one_job], one_job_running)
   \<and> onJobDone one_job_running 0 ''/a.cpp'' =
     Inr ([CondWakeAll, SyncerNotify, LogElapsed, IndexingDone 0], after_one_job)"
  by (simp add: index_def Indexer_def onJobDone_def after_one_job_def one_job_def
      one_job_running_def next_id.simps [of "[]"] contains_id_def SYNCINTERVAL_def Let_def)

lemma nine_done_reached:
  "foldl serve (Indexer ''/p'')
     [Index ''/a.cpp'' [], Index ''/b.cpp'' [], Index ''/c.cpp'' [], Index ''/d.cpp'' [],
      Index ''/e.cpp'' [], Index ''/f.cpp'' [], Index ''/g.cpp'' [], Index ''/h.cpp'' [],
      Index ''/i.cpp'' [], Index ''/j.cpp'' [], Index ''/k.cpp'' [],
      JobDone 0 ''/a.cpp'', JobDone 1 ''/b.cpp'', JobDone 2 ''/c.cpp'', JobDone 3 ''/d.cpp'',
      JobDone 4 ''/e.cpp'', JobDone 5 ''/f.cpp'', JobDone 6 ''/g.cpp'', JobDone 7 ''/h.cpp'',
      JobDone 8 ''/i.cpp'']
   = nine_done"
  by code_simp

lemma onJobDone_notifies_iff_idle:
  "onJobDone s i input = Inr (es, s') \<Longrightarrow>
   (SyncerNotify \<in> set es) = (AList.delete i (jobs s) = [])"
  by (auto simp: onJobDone_def Let_def split: if_splits)

text \<open>
  C3 (as the code has it). \<^verbatim>\<open>index(input, args)\<close> returns \<open>-1\<close> and changes nothing when
  the input is already being indexed. Otherwise the id it returns is the lowest id not
  below \<^verbatim>\<open>lastJobId\<close> that is not a key of \<^verbatim>\<open>jobs\<close>; \<^verbatim>\<open>lastJobId\<close> becomes that id
  plus one, the input joins \<^verbatim>\<open>indexing\<close>, the job is stored under its id and handed to the
  pool (after the timer start when the timer was not running), and nothing else changes.
\<close>

theorem index_returns_lowest_free_id_from_lastJobId:
  "(input \<in> indexing s \<longrightarrow> index s input args = (- 1, [], s)) \<and>
   (input \<notin> indexing s \<longrightarrow>
     (\<exists>i es s'. index s input args = (i, es, s')
        \<and> lastJobId s \<le> i \<and> \<not> contains_id (jobs s) i
        \<and> (\<forall>k. lastJobId s \<le> k \<and> k < i \<longrightarrow> contains_id (jobs s) k)
        \<and> lastJobId s' = i + 1
        \<and> indexing s' = insert input (indexing s)
        \<and> map_of (jobs s') =
            (map_of (jobs s))(i \<mapsto> \<lparr> mId = i, mPath = implPath s, mIn = input, mArgs = args \<rparr>)
        \<and> es = (if timerRunning s then [] else [TimerStart])
                @ [PoolStart \<lparr> mId = i, mPath = implPath s, mIn = input, mArgs = args \<rparr>]
        \<and> timerRunning s' \<and> jobCounter s' = jobCounter s
        \<and> pchHeaderError s' = pchHeaderError s \<and> implPath s' = implPath s
        \<and> defaultArgs s' = defaultArgs s))"
proof (intro conjI impI)
  assume "input \<in> indexing s"
  then show "index s input args = (- 1, [], s)"
    by (simp add: index_def)
next
  assume fresh: "input \<notin> indexing s"
  obtain i l where n: "next_id (jobs s) (lastJobId s) = (i, l)"
    by (cases "next_id (jobs s) (lastJobId s)")
  have b: "lastJobId s \<le> i" "\<not> contains_id (jobs s) i" "l = i + 1"
    using next_id_fst_bounds [of "lastJobId s" "jobs s"] n by simp_all
  have sk: "\<forall>k. lastJobId s \<le> k \<and> k < i \<longrightarrow> contains_id (jobs s) k"
    using next_id_skips_used [of "lastJobId s" _ "jobs s"] n by simp
  show "\<exists>i es s'. index s input args = (i, es, s')
        \<and> lastJobId s \<le> i \<and> \<not> contains_id (jobs s) i
        \<and> (\<forall>k. lastJobId s \<le> k \<and> k < i \<longrightarrow> contains_id (jobs s) k)
        \<and> lastJobId s' = i + 1
        \<and> indexing s' = insert input (indexing s)
        \<and> map_of (jobs s') =
            (map_of (jobs s))(i \<mapsto> \<lparr> mId = i, mPath = implPath s, mIn = input, mArgs = args \<rparr>)
        \<and> es = (if timerRunning s then [] else [TimerStart])
                @ [PoolStart \<lparr> mId = i, mPath = implPath s, mIn = input, mArgs = args \<rparr>]
        \<and> timerRunning s' \<and> jobCounter s' = jobCounter s
        \<and> pchHeaderError s' = pchHeaderError s \<and> implPath s' = implPath s
        \<and> defaultArgs s' = defaultArgs s"
    using fresh n b sk by (simp add: index_def Let_def AList.update_conv')
qed

theorem index_returns_lowest_free_id_from_lastJobId_witness:
  "''/a.cpp'' \<in> indexing one_job_running
   \<and> index one_job_running ''/a.cpp'' [''-x'', ''c++''] = (- 1, [], one_job_running)
   \<and> ''/b.cpp'' \<notin> indexing one_job_running
   \<and> fst (index one_job_running ''/b.cpp'' []) = 1"
proof -
  have a: "''/a.cpp'' \<in> indexing one_job_running"
    by (simp add: one_job_running_def)
  have b: "''/b.cpp'' \<notin> indexing one_job_running"
    by (simp add: one_job_running_def)
  note t = index_returns_lowest_free_id_from_lastJobId
  have r: "index one_job_running ''/a.cpp'' [''-x'', ''c++''] = (- 1, [], one_job_running)"
    using t [of "''/a.cpp''" one_job_running "[''-x'', ''c++'']"] a by blast
  obtain i es s' where
    i: "index one_job_running ''/b.cpp'' [] = (i, es, s')"
       "lastJobId one_job_running \<le> i"
       "\<forall>k. lastJobId one_job_running \<le> k \<and> k < i \<longrightarrow> contains_id (jobs one_job_running) k"
    using t [of "''/b.cpp''" one_job_running "[]"] b by blast
  have "\<not> contains_id (jobs one_job_running) 1" "lastJobId one_job_running = 1"
    by (simp_all add: one_job_running_def contains_id_def)
  with i(2,3) have "i = 1"
    by (metis less_le order_refl)
  with i(1) a b r show ?thesis by simp
qed

text \<open>
  C3 as stated fails: once job 0 has completed, id 0 is unused, yet the next call returns 1.
\<close>

theorem index_skips_free_id_counterexample:
  "''/b.cpp'' \<notin> indexing after_one_job
   \<and> \<not> contains_id (jobs after_one_job) 0
   \<and> fst (index after_one_job ''/b.cpp'' []) = 1"
  by (simp add: index_def after_one_job_def next_id.simps [of "[]"] contains_id_def Let_def)

text \<open>
  C1 at the failing input: two jobs in flight, nine completions counted. The tenth
  completion brings \<^verbatim>\<open>jobCounter\<close> to \<^verbatim>\<open>SYNCINTERVAL\<close> with a job still running; the handler
  wakes the waiters and emits \<^verbatim>\<open>indexingDone\<close>, and does not notify the syncer.
\<close>

theorem onJobDone_tenth_job_no_notify:
  "onJobDone nine_done 9 ''/j.cpp'' =
     Inr ([CondWakeAll, IndexingDone 9],
          nine_done \<lparr> jobCounter := SYNCINTERVAL, indexing := {''/k.cpp''},
                      jobs := [(10, \<lparr> mId = 10, mPath = ''/p/'', mIn = ''/k.cpp'', mArgs = [] \<rparr>)] \<rparr>)"
  by (simp add: onJobDone_def nine_done_def SYNCINTERVAL_def Let_def AList.delete_eq insert_Diff_if)

section \<open>Accumulator and flusher\<close>

lemma wait_loop_swapped_empties:
  "wait_loop s wakeups = Swapped b s' \<Longrightarrow>
   mSymbols s' = [] \<and> mSymbolNames s' = [] \<and> mDependencies s' = [] \<and> mInformations s' = []"
  by (induction s wakeups rule: wait_loop.induct) (auto simp: swap_out_def split: if_splits)

lemma wait_loop_waiting_empty:
  "wait_loop s wakeups = Waiting s' \<Longrightarrow> mSymbols s' = [] \<and> mSymbolNames s' = []"
  by (induction s wakeups rule: wait_loop.induct) (auto simp: swap_out_def split: if_splits)

lemma wait_loop_nonempty:
  "mSymbols s \<noteq> [] \<or> mSymbolNames s \<noteq> [] \<Longrightarrow> wait_loop s wakeups = swap_out s"
  by (cases wakeups) auto

lemma stage_symbolNames_contained:
  "\<forall>(k, a) \<in> set added. a \<subseteq> readValue {} db k \<Longrightarrow> stage_symbolNames db added = []"
  by (induction added) (auto simp: Let_def Un_absorb2)

lemma stage_dependencies_contained:
  "\<forall>(k, a) \<in> set added. a \<subseteq> readValue {} db k \<Longrightarrow> stage_dependencies db added = []"
  by (induction added) (auto simp: Let_def Un_absorb2)

lemma stage_symbols_unchanged:
  "\<forall>(l, a) \<in> set added. \<not> fst (unite (readValue nullCursorInfo db (padded_key l)) a)
   \<Longrightarrow> stage_symbols db added = []"
  by (induction added) (auto simp: Let_def split: prod.splits)

lemma Write_same_informations:
  "\<forall>(k, args) \<in> set infos. map_of t k = Some args \<Longrightarrow>
   Write (map (\<lambda>(key, args). Put key args) infos) t = t"
  by (induction infos) (auto simp: Write_def AList.update_triv)

lemma card_differs_psubset: "card (c \<union> b) \<noteq> card c \<Longrightarrow> c \<subset> c \<union> b"
  by (metis Un_upper1 psubsetI)

lemma card_grows_psubset: "card c < card (c \<union> b) \<Longrightarrow> c \<subset> c \<union> b"
  by (metis Un_upper1 psubsetI less_irrefl)

lemma stage_symbolNames_put_grows:
  "Put k v \<in> set (stage_symbolNames db added) \<Longrightarrow>
   \<exists>a. (k, a) \<in> set added \<and> v = readValue {} db k \<union> a \<and> readValue {} db k \<subset> v"
proof (induction added)
  case Nil
  then show ?case by simp
next
  case (Cons p added)
  obtain k' b where p: "p = (k', b)" by (cases p)
  from Cons.prems p consider
      (here) "k = k'" "v = readValue {} db k' \<union> b"
             "card (readValue {} db k' \<union> b) \<noteq> card (readValue {} db k')"
    | (later) "Put k v \<in> set (stage_symbolNames db added)"
    by (auto simp: Let_def split: if_splits)
  then show ?case
  proof cases
    case here
    then show ?thesis using p card_differs_psubset by fastforce
  next
    case later
    with Cons.IH show ?thesis by fastforce
  qed
qed

lemma stage_dependencies_put_grows:
  "Put k v \<in> set (stage_dependencies db added) \<Longrightarrow>
   \<exists>a. (k, a) \<in> set added \<and> v = readValue {} db k \<union> a \<and> readValue {} db k \<subset> v"
proof (induction added)
  case Nil
  then show ?case by simp
next
  case (Cons p added)
  obtain k' b where p: "p = (k', b)" by (cases p)
  from Cons.prems p consider
      (here) "k = k'" "v = readValue {} db k' \<union> b"
             "card (readValue {} db k') < card (readValue {} db k' \<union> b)"
    | (later) "Put k v \<in> set (stage_dependencies db added)"
    by (auto simp: Let_def split: if_splits)
  then show ?case
  proof cases
    case here
    then show ?thesis using p card_grows_psubset by fastforce
  next
    case later
    with Cons.IH show ?thesis by fastforce
  qed
qed

lemma stage_symbols_put_changed:
  "Put k v \<in> set (stage_symbols db added) \<Longrightarrow>
   \<exists>l a. (l, a) \<in> set added \<and> k = padded_key l
     \<and> unite (readValue nullCursorInfo db k) a = (True, v)"
proof (induction added)
  case Nil
  then show ?case by simp
next
  case (Cons p added)
  obtain l b where p: "p = (l, b)" by (cases p)
  from Cons.prems p consider
      (here) "k = padded_key l"
             "unite (readValue nullCursorInfo db (padded_key l)) b = (True, v)"
    | (later) "Put k v \<in> set (stage_symbols db added)"
    by (auto simp: Let_def split: if_splits prod.splits)
  then show ?case
  proof cases
    case here
    then show ?thesis using p by fastforce
  next
    case later
    with Cons.IH show ?thesis by fastforce
  qed
qed


lemma padded_key_example: "padded_key foo_def_loc = ''/a.cpp,000000004''"
  by (simp add: padded_key_def foo_def_loc_def digit_def Let_def)

lemma locked_block_wake:
  "\<not> mStopped s \<Longrightarrow> mSymbols s = [] \<Longrightarrow> mSymbolNames s = [] \<Longrightarrow>
   locked_block s (s' # w) = locked_block s' w"
  by (simp add: locked_block_def)

lemma locked_block_has_data:
  "\<not> mStopped s \<Longrightarrow> mSymbols s \<noteq> [] \<or> mSymbolNames s \<noteq> [] \<Longrightarrow>
   locked_block s wakeups = swap_out s"
  by (simp add: locked_block_def wait_loop_nonempty)

lemma locked_block_Waiting_all:
  "locked_block s wakeups = Waiting s' \<Longrightarrow>
   s' = last (s # wakeups)
   \<and> (\<forall>t \<in> set (s # wakeups). \<not> mStopped t \<and> mSymbols t = [] \<and> mSymbolNames t = [])"
proof (induction wakeups arbitrary: s)
  case Nil
  then show ?case
    by (auto simp: locked_block_def swap_out_def split: if_splits)
next
  case (Cons w wakeups)
  from Cons.prems have ns: "\<not> mStopped s"
    by (auto simp: locked_block_def split: if_splits)
  have e: "mSymbols s = [] \<and> mSymbolNames s = []"
  proof (rule ccontr)
    assume "\<not> (mSymbols s = [] \<and> mSymbolNames s = [])"
    then have "locked_block s (w # wakeups) = swap_out s"
      using ns by (intro locked_block_has_data) auto
    with Cons.prems show False by (simp add: swap_out_def)
  qed
  with ns Cons.prems have "locked_block w wakeups = Waiting s'"
    by (simp add: locked_block_wake)
  from Cons.IH [OF this] ns e show ?case by simp
qed

lemma locked_block_Swapped_from:
  "locked_block s wakeups = Swapped b s' \<Longrightarrow>
   \<exists>t \<in> set (s # wakeups). \<not> mStopped t \<and> (mSymbols t \<noteq> [] \<or> mSymbolNames t \<noteq> [])
      \<and> swap_out t = Swapped b s'"
proof (induction wakeups arbitrary: s)
  case Nil
  then show ?case
    by (auto simp: locked_block_def split: if_splits)
next
  case (Cons w wakeups)
  from Cons.prems have ns: "\<not> mStopped s"
    by (auto simp: locked_block_def split: if_splits)
  show ?case
  proof (cases "mSymbols s = [] \<and> mSymbolNames s = []")
    case True
    with ns Cons.prems have "locked_block w wakeups = Swapped b s'"
      by (simp add: locked_block_wake)
    from Cons.IH [OF this] show ?thesis by auto
  next
    case False
    then have "locked_block s (w # wakeups) = swap_out s"
      using ns by (intro locked_block_has_data) auto
    with Cons.prems False ns show ?thesis by auto
  qed
qed

lemma locked_block_proceeds:
  "\<forall>u \<in> set (s # ws). \<not> mStopped u \<and> mSymbols u = [] \<and> mSymbolNames u = [] \<Longrightarrow>
   \<not> mStopped t \<Longrightarrow> mSymbols t \<noteq> [] \<or> mSymbolNames t \<noteq> [] \<Longrightarrow>
   locked_block s (ws @ t # rest) = swap_out t"
proof (induction ws arbitrary: s)
  case Nil
  then show ?case
    by (simp add: locked_block_wake locked_block_has_data)
next
  case (Cons w ws)
  from Cons.prems(1) have "locked_block s ((w # ws) @ t # rest) = locked_block w (ws @ t # rest)"
    by (simp add: locked_block_wake)
  also have "\<dots> = swap_out t"
    using Cons.prems by (intro Cons.IH) auto
  finally show ?case .
qed

lemma run_iteration_swap_out:
  "locked_block s wakeups = swap_out t \<Longrightarrow>
   run_iteration opens st s wakeups =
     (fst (flush opens st
            \<lparr> symbolNames = mSymbolNames t, symbols = mSymbols t,
              dependencies = mDependencies t, informations = mInformations t \<rparr>),
      t \<lparr> mSymbolNames := [], mSymbols := [], mDependencies := [], mInformations := [] \<rparr>,
      snd (flush opens st
            \<lparr> symbolNames = mSymbolNames t, symbols = mSymbols t,
              dependencies = mDependencies t, informations = mInformations t \<rparr>))"
  by (simp add: run_iteration_def swap_out_def split: prod.splits)

text \<open>
  C4 (as the code has it). The test of the wait loop reads two buffers only. With stop set
  the block returns. With stop unset, the flusher waits on its condition variable when the
  symbols and the symbol-names buffers are both empty, whatever the dependencies and
  file-information buffers hold, and at a wake-up it starts over from the state it finds;
  when the symbols or the symbol-names buffer is non-empty, at entry or at any wake-up, it
  swaps out all four buffers and flushes them. It is left waiting only when every state it
  has seen had both buffers empty, and it swaps only in a state in which one of the two
  is non-empty.
\<close>

theorem flusher_waits_on_symbols_and_names_only:
  "(mStopped s \<longrightarrow> locked_block s wakeups = Stopped s)
   \<and> (\<not> mStopped s \<and> mSymbols s = [] \<and> mSymbolNames s = [] \<longrightarrow>
        locked_block s [] = Waiting s
        \<and> run_iteration opens st s [] = (st, s, Blocked)
        \<and> (\<forall>s' w. locked_block s (s' # w) = locked_block s' w))
   \<and> (\<not> mStopped s \<and> (mSymbols s \<noteq> [] \<or> mSymbolNames s \<noteq> []) \<longrightarrow>
        locked_block s wakeups = swap_out s
        \<and> run_iteration opens st s wakeups =
            (fst (flush opens st
                   \<lparr> symbolNames = mSymbolNames s, symbols = mSymbols s,
                     dependencies = mDependencies s, informations = mInformations s \<rparr>),
             s \<lparr> mSymbolNames := [], mSymbols := [], mDependencies := [], mInformations := [] \<rparr>,
             snd (flush opens st
                   \<lparr> symbolNames = mSymbolNames s, symbols = mSymbols s,
                     dependencies = mDependencies s, informations = mInformations s \<rparr>)))
   \<and> (\<forall>ws t rest.
        (\<forall>u \<in> set (s # ws). \<not> mStopped u \<and> mSymbols u = [] \<and> mSymbolNames u = [])
        \<and> \<not> mStopped t \<and> (mSymbols t \<noteq> [] \<or> mSymbolNames t \<noteq> []) \<longrightarrow>
        locked_block s (ws @ t # rest) = swap_out t
        \<and> run_iteration opens st s (ws @ t # rest) =
            (fst (flush opens st
                   \<lparr> symbolNames = mSymbolNames t, symbols = mSymbols t,
                     dependencies = mDependencies t, informations = mInformations t \<rparr>),
             t \<lparr> mSymbolNames := [], mSymbols := [], mDependencies := [], mInformations := [] \<rparr>,
             snd (flush opens st
                   \<lparr> symbolNames = mSymbolNames t, symbols = mSymbols t,
                     dependencies = mDependencies t, informations = mInformations t \<rparr>)))
   \<and> (\<forall>s'. locked_block s wakeups = Waiting s' \<longrightarrow>
        s' = last (s # wakeups)
        \<and> (\<forall>t \<in> set (s # wakeups). \<not> mStopped t \<and> mSymbols t = [] \<and> mSymbolNames t = []))
   \<and> (\<forall>b s'. locked_block s wakeups = Swapped b s' \<longrightarrow>
        (\<exists>t \<in> set (s # wakeups). \<not> mStopped t \<and> (mSymbols t \<noteq> [] \<or> mSymbolNames t \<noteq> [])
           \<and> swap_out t = Swapped b s'))"
proof (intro conjI impI allI)
  assume "mStopped s"
  then show "locked_block s wakeups = Stopped s"
    by (simp add: locked_block_def)
next
  assume e: "\<not> mStopped s \<and> mSymbols s = [] \<and> mSymbolNames s = []"
  then show "locked_block s [] = Waiting s"
    by (simp add: locked_block_def)
  then show "run_iteration opens st s [] = (st, s, Blocked)"
    by (simp add: run_iteration_def)
  fix s' w
  from e show "locked_block s (s' # w) = locked_block s' w"
    by (simp add: locked_block_wake)
next
  assume e: "\<not> mStopped s \<and> (mSymbols s \<noteq> [] \<or> mSymbolNames s \<noteq> [])"
  then show l: "locked_block s wakeups = swap_out s"
    by (simp add: locked_block_has_data)
  then show "run_iteration opens st s wakeups =
            (fst (flush opens st
                   \<lparr> symbolNames = mSymbolNames s, symbols = mSymbols s,
                     dependencies = mDependencies s, informations = mInformations s \<rparr>),
             s \<lparr> mSymbolNames := [], mSymbols := [], mDependencies := [], mInformations := [] \<rparr>,
             snd (flush opens st
                   \<lparr> symbolNames = mSymbolNames s, symbols = mSymbols s,
                     dependencies = mDependencies s, informations = mInformations s \<rparr>))"
    by (rule run_iteration_swap_out)
next
  fix ws :: "syncer list" and t :: syncer and rest :: "syncer list"
  assume a: "(\<forall>u \<in> set (s # ws). \<not> mStopped u \<and> mSymbols u = [] \<and> mSymbolNames u = [])
        \<and> \<not> mStopped t \<and> (mSymbols t \<noteq> [] \<or> mSymbolNames t \<noteq> [])"
  then show l: "locked_block s (ws @ t # rest) = swap_out t"
    by (intro locked_block_proceeds) blast+
  then show "run_iteration opens st s (ws @ t # rest) =
            (fst (flush opens st
                   \<lparr> symbolNames = mSymbolNames t, symbols = mSymbols t,
                     dependencies = mDependencies t, informations = mInformations t \<rparr>),
             t \<lparr> mSymbolNames := [], mSymbols := [], mDependencies := [], mInformations := [] \<rparr>,
             snd (flush opens st
                   \<lparr> symbolNames = mSymbolNames t, symbols = mSymbols t,
                     dependencies = mDependencies t, informations = mInformations t \<rparr>))"
    by (rule run_iteration_swap_out)
next
  fix s'
  assume w: "locked_block s wakeups = Waiting s'"
  from locked_block_Waiting_all [OF w]
  show "s' = last (s # wakeups)"
    and "\<forall>t \<in> set (s # wakeups). \<not> mStopped t \<and> mSymbols t = [] \<and> mSymbolNames t = []"
    by blast+
next
  fix b s'
  assume w: "locked_block s wakeups = Swapped b s'"
  from locked_block_Swapped_from [OF w]
  show "\<exists>t \<in> set (s # wakeups). \<not> mStopped t \<and> (mSymbols t \<noteq> [] \<or> mSymbolNames t \<noteq> [])
           \<and> swap_out t = Swapped b s'" .
qed

theorem flusher_waits_on_symbols_and_names_only_witness:
  "\<not> mStopped names_pending \<and> mSymbolNames names_pending \<noteq> []
   \<and> locked_block names_pending [] = swap_out names_pending
   \<and> \<not> mStopped idle_syncer \<and> locked_block idle_syncer [] = Waiting idle_syncer
   \<and> locked_block idle_syncer [deps_only, names_pending, idle_syncer] = swap_out names_pending
   \<and> run_iteration opens_all empty_store idle_syncer [deps_only, names_pending, idle_syncer] =
       (empty_store \<lparr> symbolNameDb := [(''foo'', {foo_def_loc})],
                      fileInformationDb := [(''/a.cpp'', [''-x'', ''c++''])] \<rparr>,
        idle_syncer, Looping)"
proof -
  have a: "\<not> mStopped names_pending" "mSymbolNames names_pending \<noteq> []"
    by (simp_all add: names_pending_def idle_syncer_def)
  have b: "\<not> mStopped idle_syncer" "mSymbols idle_syncer = [] \<and> mSymbolNames idle_syncer = []"
    by (simp_all add: idle_syncer_def)
  have c: "\<forall>u \<in> set (idle_syncer # [deps_only]).
             \<not> mStopped u \<and> mSymbols u = [] \<and> mSymbolNames u = []"
    by (simp add: idle_syncer_def deps_only_def)
  note t = flusher_waits_on_symbols_and_names_only
  from t [of names_pending "[]"] a have 1: "locked_block names_pending [] = swap_out names_pending"
    by blast
  from t [of idle_syncer] b have 2: "locked_block idle_syncer [] = Waiting idle_syncer"
    by blast
  from t [of idle_syncer _ opens_all empty_store] a c
  have 3: "locked_block idle_syncer ([deps_only] @ names_pending # [idle_syncer]) = swap_out names_pending
    \<and> run_iteration opens_all empty_store idle_syncer ([deps_only] @ names_pending # [idle_syncer]) =
            (fst (flush opens_all empty_store
                   \<lparr> symbolNames = mSymbolNames names_pending, symbols = mSymbols names_pending,
                     dependencies = mDependencies names_pending,
                     informations = mInformations names_pending \<rparr>),
             names_pending \<lparr> mSymbolNames := [], mSymbols := [], mDependencies := [],
                             mInformations := [] \<rparr>,
             snd (flush opens_all empty_store
                   \<lparr> symbolNames = mSymbolNames names_pending, symbols = mSymbols names_pending,
                     dependencies = mDependencies names_pending,
                     informations = mInformations names_pending \<rparr>))"
    by blast
  have f: "flush opens_all empty_store
                   \<lparr> symbolNames = mSymbolNames names_pending, symbols = mSymbols names_pending,
                     dependencies = mDependencies names_pending,
                     informations = mInformations names_pending \<rparr>
      = (empty_store \<lparr> symbolNameDb := [(''foo'', {foo_def_loc})],
                      fileInformationDb := [(''/a.cpp'', [''-x'', ''c++''])] \<rparr>, Looping)"
    by (simp add: flush_def names_pending_def idle_syncer_def opens_all_def empty_store_def
        Let_def readValue_def commit_if_changed_def Write_def)
  have i: "names_pending \<lparr> mSymbolNames := [], mSymbols := [], mDependencies := [],
                             mInformations := [] \<rparr> = idle_syncer"
    by (simp add: names_pending_def idle_syncer_def)
  from a b 1 2 3 f i show ?thesis by simp
qed

text \<open>
  C4 as stated fails: with only the dependencies buffer non-empty and stop unset, the flusher
  waits, and goes back to waiting after every wake-up that finds the same state.
\<close>

theorem flusher_waits_with_dependencies_pending_counterexample:
  "\<not> mStopped deps_only \<and> mDependencies deps_only \<noteq> []
   \<and> locked_block deps_only [] = Waiting deps_only
   \<and> locked_block deps_only [deps_only, deps_only] = Waiting deps_only"
  by (simp add: deps_only_def idle_syncer_def locked_block_def)


lemma flush_Returned_iff:
  "(snd (flush opens st b) = Returned) =
     (symbolNames b \<noteq> [] \<and> \<not> opens SymbolName
      \<or> symbols b \<noteq> [] \<and> \<not> opens Symbol
      \<or> dependencies b \<noteq> [] \<and> \<not> opens Dependency
      \<or> informations b \<noteq> [] \<and> \<not> opens FileInformation)"
  by (simp add: flush_def Let_def)

lemma flush_SymbolName_closed:
  "symbolNames b \<noteq> [] \<Longrightarrow> \<not> opens SymbolName \<Longrightarrow> fst (flush opens st b) = st"
  by (simp add: flush_def)

lemma flush_Symbol_closed:
  "symbols b \<noteq> [] \<Longrightarrow> \<not> opens Symbol \<Longrightarrow>
   symbolDb (fst (flush opens st b)) = symbolDb st
   \<and> dependencyDb (fst (flush opens st b)) = dependencyDb st
   \<and> fileInformationDb (fst (flush opens st b)) = fileInformationDb st"
  by (simp add: flush_def Let_def)

lemma flush_Dependency_closed:
  "dependencies b \<noteq> [] \<Longrightarrow> \<not> opens Dependency \<Longrightarrow>
   dependencyDb (fst (flush opens st b)) = dependencyDb st
   \<and> fileInformationDb (fst (flush opens st b)) = fileInformationDb st"
  by (simp add: flush_def Let_def)

lemma flush_FileInformation_closed:
  "informations b \<noteq> [] \<Longrightarrow> \<not> opens FileInformation \<Longrightarrow>
   fileInformationDb (fst (flush opens st b)) = fileInformationDb st"
  by (simp add: flush_def Let_def)

lemma locked_block_swapped_empties:
  "locked_block s wakeups = Swapped b s' \<Longrightarrow>
   mSymbols s' = [] \<and> mSymbolNames s' = [] \<and> mDependencies s' = [] \<and> mInformations s' = []"
  using wait_loop_swapped_empties [of s wakeups b s']
  by (simp add: locked_block_def split: if_splits)

text \<open>
  C2 (as the code has it). The buffers are swapped out of the shared state before any table
  is opened, so the shared buffers are empty from then on. When a table that has entries to
  flush cannot be opened, \<^verbatim>\<open>run\<close> returns: the thread ends, that table and the tables later
  in the cycle are left as they were, and the swapped-out entries go with the locals.
\<close>

theorem flush_open_failure_returns_and_drops_buffers:
  "locked_block s wakeups = Swapped b s' \<Longrightarrow>
     (mSymbols s' = [] \<and> mSymbolNames s' = [] \<and> mDependencies s' = [] \<and> mInformations s' = [])
   \<and> run_iteration opens st s wakeups = (fst (flush opens st b), s', snd (flush opens st b))
   \<and> ((snd (flush opens st b) = Returned) =
        (symbolNames b \<noteq> [] \<and> \<not> opens SymbolName
         \<or> symbols b \<noteq> [] \<and> \<not> opens Symbol
         \<or> dependencies b \<noteq> [] \<and> \<not> opens Dependency
         \<or> informations b \<noteq> [] \<and> \<not> opens FileInformation))
   \<and> (symbolNames b \<noteq> [] \<and> \<not> opens SymbolName \<longrightarrow> fst (flush opens st b) = st)
   \<and> (symbols b \<noteq> [] \<and> \<not> opens Symbol \<longrightarrow>
        symbolDb (fst (flush opens st b)) = symbolDb st
        \<and> dependencyDb (fst (flush opens st b)) = dependencyDb st
        \<and> fileInformationDb (fst (flush opens st b)) = fileInformationDb st)
   \<and> (dependencies b \<noteq> [] \<and> \<not> opens Dependency \<longrightarrow>
        dependencyDb (fst (flush opens st b)) = dependencyDb st
        \<and> fileInformationDb (fst (flush opens st b)) = fileInformationDb st)
   \<and> (informations b \<noteq> [] \<and> \<not> opens FileInformation \<longrightarrow>
        fileInformationDb (fst (flush opens st b)) = fileInformationDb st)"
proof (intro conjI impI)
  assume l: "locked_block s wakeups = Swapped b s'"
  from locked_block_swapped_empties [OF l]
  show "mSymbols s' = []" "mSymbolNames s' = []" "mDependencies s' = []" "mInformations s' = []"
    by simp_all
  show "run_iteration opens st s wakeups = (fst (flush opens st b), s', snd (flush opens st b))"
    by (simp add: run_iteration_def l split: prod.splits)
  show "(snd (flush opens st b) = Returned) =
        (symbolNames b \<noteq> [] \<and> \<not> opens SymbolName
         \<or> symbols b \<noteq> [] \<and> \<not> opens Symbol
         \<or> dependencies b \<noteq> [] \<and> \<not> opens Dependency
         \<or> informations b \<noteq> [] \<and> \<not> opens FileInformation)"
    by (rule flush_Returned_iff)
next
  assume "symbolNames b \<noteq> [] \<and> \<not> opens SymbolName"
  then show "fst (flush opens st b) = st"
    by (simp add: flush_SymbolName_closed)
next
  assume a: "symbols b \<noteq> [] \<and> \<not> opens Symbol"
  then show "symbolDb (fst (flush opens st b)) = symbolDb st"
    "dependencyDb (fst (flush opens st b)) = dependencyDb st"
    "fileInformationDb (fst (flush opens st b)) = fileInformationDb st"
    using flush_Symbol_closed [of b opens st] by simp_all
next
  assume a: "dependencies b \<noteq> [] \<and> \<not> opens Dependency"
  then show "dependencyDb (fst (flush opens st b)) = dependencyDb st"
    "fileInformationDb (fst (flush opens st b)) = fileInformationDb st"
    using flush_Dependency_closed [of b opens st] by simp_all
next
  assume a: "informations b \<noteq> [] \<and> \<not> opens FileInformation"
  then show "fileInformationDb (fst (flush opens st b)) = fileInformationDb st"
    using flush_FileInformation_closed [of b opens st] by simp
qed

theorem flush_open_failure_returns_and_drops_buffers_witness:
  "locked_block names_pending [] =
     Swapped \<lparr> symbolNames = [(''foo'', {foo_def_loc})], symbols = [], dependencies = [],
               informations = [(''/a.cpp'', [''-x'', ''c++''])] \<rparr> idle_syncer
   \<and> run_iteration no_SymbolName empty_store names_pending [] =
       (empty_store, idle_syncer, Returned)"
proof -
  let ?b = "\<lparr> symbolNames = [(''foo'', {foo_def_loc})], symbols = [], dependencies = [],
               informations = [(''/a.cpp'', [''-x'', ''c++''])] \<rparr>"
  have l: "locked_block names_pending [] = Swapped ?b idle_syncer"
    by (simp add: locked_block_def names_pending_def idle_syncer_def swap_out_def)
  have f: "flush no_SymbolName empty_store ?b = (empty_store, Returned)"
    by (simp add: flush_def no_SymbolName_def)
  from flush_open_failure_returns_and_drops_buffers [OF l, of no_SymbolName empty_store] f l
  show ?thesis by simp
qed

text \<open>
  C2 as stated fails: a symbol-name entry is pending, the SymbolName table does not open;
  afterwards the entry is neither in the store nor in the shared buffer, and the flusher
  thread has returned.
\<close>

theorem flush_open_failure_loses_buffers_counterexample:
  "mSymbolNames names_pending = [(''foo'', {foo_def_loc})]
   \<and> \<not> no_SymbolName SymbolName
   \<and> run_iteration no_SymbolName empty_store names_pending [] =
       (empty_store, idle_syncer, Returned)
   \<and> mSymbolNames idle_syncer = [] \<and> symbolNameDb empty_store = []"
  by (simp add: run_iteration_def locked_block_def names_pending_def idle_syncer_def
      swap_out_def flush_def no_SymbolName_def empty_store_def)

text \<open>
  C6. A put is staged for SymbolName and Dependency only when the union is strictly larger
  than the stored set, for Symbol only when \<^verbatim>\<open>unite\<close> reports a change; an empty batch is not
  committed; and a flush whose buffers hold only what the store already contains (every
  added set included in the stored one, no \<^verbatim>\<open>unite\<close> reporting a change, every argument
  list equal to the stored one) leaves the store as it was, so that flushing the same
  buffers again gives the same store.
\<close>

theorem flush_of_contained_data_changes_nothing:
  "(\<forall>k v. Put k v \<in> set (stage_symbolNames (symbolNameDb st) (symbolNames b)) \<longrightarrow>
      (\<exists>a. (k, a) \<in> set (symbolNames b) \<and> v = readValue {} (symbolNameDb st) k \<union> a
           \<and> readValue {} (symbolNameDb st) k \<subset> v))
   \<and> (\<forall>k v. Put k v \<in> set (stage_dependencies (dependencyDb st) (dependencies b)) \<longrightarrow>
      (\<exists>a. (k, a) \<in> set (dependencies b) \<and> v = readValue {} (dependencyDb st) k \<union> a
           \<and> readValue {} (dependencyDb st) k \<subset> v))
   \<and> (\<forall>k v. Put k v \<in> set (stage_symbols (symbolDb st) (symbols b)) \<longrightarrow>
      (\<exists>l a. (l, a) \<in> set (symbols b) \<and> k = padded_key l
           \<and> unite (readValue nullCursorInfo (symbolDb st) k) a = (True, v)))
   \<and> commit_if_changed [] (symbolNameDb st) = symbolNameDb st
   \<and> commit_if_changed [] (symbolDb st) = symbolDb st
   \<and> commit_if_changed [] (dependencyDb st) = dependencyDb st
   \<and> ((\<forall>(k, a) \<in> set (symbolNames b). a \<subseteq> readValue {} (symbolNameDb st) k)
       \<and> (\<forall>(l, a) \<in> set (symbols b).
             \<not> fst (unite (readValue nullCursorInfo (symbolDb st) (padded_key l)) a))
       \<and> (\<forall>(k, a) \<in> set (dependencies b). a \<subseteq> readValue {} (dependencyDb st) k)
       \<and> (\<forall>(k, args) \<in> set (informations b). map_of (fileInformationDb st) k = Some args)
       \<longrightarrow> fst (flush opens st b) = st
           \<and> fst (flush opens (fst (flush opens st b)) b) = fst (flush opens st b))"
proof (intro conjI impI allI)
  fix k v
  assume "Put k v \<in> set (stage_symbolNames (symbolNameDb st) (symbolNames b))"
  then show "\<exists>a. (k, a) \<in> set (symbolNames b) \<and> v = readValue {} (symbolNameDb st) k \<union> a
           \<and> readValue {} (symbolNameDb st) k \<subset> v"
    by (rule stage_symbolNames_put_grows)
next
  fix k v
  assume "Put k v \<in> set (stage_dependencies (dependencyDb st) (dependencies b))"
  then show "\<exists>a. (k, a) \<in> set (dependencies b) \<and> v = readValue {} (dependencyDb st) k \<union> a
           \<and> readValue {} (dependencyDb st) k \<subset> v"
    by (rule stage_dependencies_put_grows)
next
  fix k v
  assume "Put k v \<in> set (stage_symbols (symbolDb st) (symbols b))"
  then show "\<exists>l a. (l, a) \<in> set (symbols b) \<and> k = padded_key l
           \<and> unite (readValue nullCursorInfo (symbolDb st) k) a = (True, v)"
    by (rule stage_symbols_put_changed)
next
  show "commit_if_changed [] (symbolNameDb st) = symbolNameDb st"
    "commit_if_changed [] (symbolDb st) = symbolDb st"
    "commit_if_changed [] (dependencyDb st) = dependencyDb st"
    by (simp_all add: commit_if_changed_def)
next
  assume a: "(\<forall>(k, a) \<in> set (symbolNames b). a \<subseteq> readValue {} (symbolNameDb st) k)
       \<and> (\<forall>(l, a) \<in> set (symbols b).
             \<not> fst (unite (readValue nullCursorInfo (symbolDb st) (padded_key l)) a))
       \<and> (\<forall>(k, a) \<in> set (dependencies b). a \<subseteq> readValue {} (dependencyDb st) k)
       \<and> (\<forall>(k, args) \<in> set (informations b). map_of (fileInformationDb st) k = Some args)"
  have n: "stage_symbolNames (symbolNameDb st) (symbolNames b) = []"
    using a by (simp add: stage_symbolNames_contained)
  have s: "stage_symbols (symbolDb st) (symbols b) = []"
    using a by (simp add: stage_symbols_unchanged)
  have d: "stage_dependencies (dependencyDb st) (dependencies b) = []"
    using a by (simp add: stage_dependencies_contained)
  have i: "Write (map (\<lambda>(key, args). Put key args) (informations b)) (fileInformationDb st)
           = fileInformationDb st"
    using a by (simp add: Write_same_informations)
  show same: "fst (flush opens st b) = st"
    by (simp add: flush_def Let_def n s d i commit_if_changed_def)
  show "fst (flush opens (fst (flush opens st b)) b) = fst (flush opens st b)"
    by (simp add: same)
qed

theorem flush_of_contained_data_changes_nothing_witness:
  "{foo_def_loc} \<subseteq> readValue {} (symbolNameDb a_cpp_store) ''foo''
   \<and> fst (unite foo_info foo_info) = False
   \<and> flush opens_all a_cpp_store a_cpp_again = (a_cpp_store, Looping)"
proof -
  have n: "\<forall>(k, a) \<in> set (symbolNames a_cpp_again). a \<subseteq> readValue {} (symbolNameDb a_cpp_store) k"
    by (simp add: a_cpp_again_def a_cpp_store_def readValue_def)
  have u: "fst (unite foo_info foo_info) = False"
    by (simp add: unite_def foo_info_def)
  have s: "\<forall>(l, a) \<in> set (symbols a_cpp_again).
      \<not> fst (unite (readValue nullCursorInfo (symbolDb a_cpp_store) (padded_key l)) a)"
    using u by (simp add: a_cpp_again_def a_cpp_store_def readValue_def)
  have d: "\<forall>(k, a) \<in> set (dependencies a_cpp_again). a \<subseteq> readValue {} (dependencyDb a_cpp_store) k"
    by (simp add: a_cpp_again_def a_cpp_store_def readValue_def)
  have i: "\<forall>(k, args) \<in> set (informations a_cpp_again).
      map_of (fileInformationDb a_cpp_store) k = Some args"
    by (simp add: a_cpp_again_def a_cpp_store_def)
  have e: "snd (flush opens_all a_cpp_store a_cpp_again) = Looping"
    using flush_Returned_iff [of opens_all a_cpp_store a_cpp_again]
    by (cases "snd (flush opens_all a_cpp_store a_cpp_again)")
       (simp_all add: opens_all_def flush_def Let_def a_cpp_again_def)
  from flush_of_contained_data_changes_nothing [of a_cpp_store a_cpp_again opens_all] n s d i
  have "fst (flush opens_all a_cpp_store a_cpp_again) = a_cpp_store"
    by blast
  moreover have "{foo_def_loc} \<subseteq> readValue {} (symbolNameDb a_cpp_store) ''foo''"
    by (simp add: a_cpp_store_def readValue_def)
  ultimately show ?thesis using e u
    by (simp add: prod_eq_iff)
qed

section \<open>Parse job: the wait for precompiled headers\<close>









lemma h2_done_reached:
  "onJobDone h1_failed_h2_running 2 ''/h2.h'' =
     Inr ([CondWakeAll, IndexingDone 2], h1_failed_h2_done)"
  by (simp add: onJobDone_def h1_failed_h2_running_def h1_failed_h2_done_def Let_def
      SYNCINTERVAL_def AList.delete_eq d_cpp_job_def insert_Diff_if)



text \<open>
  C10 at the failing input. The first pass removes \<^verbatim>\<open>-include-pch /h1.h\<close> and then waits
  for \<^verbatim>\<open>/h2.h\<close>. The pass after the wake-up walks the same list of headers, finds
  \<^verbatim>\<open>/h1.h\<close> in \<^verbatim>\<open>pchHeaderError\<close> again, and \<^verbatim>\<open>indexOf\<close> is now \<open>-1\<close>: the assertion fails.
\<close>

theorem pch_gate_assertion_fails_after_wakeup:
  "run_until_parse d_cpp_job h1_failed_h2_running [h1_failed_h2_done] = Failed AssertionFailed"
  by (simp add: run_until_parse_def extractPchFiles_def d_cpp_job_def h1_failed_h2_running_def
      h1_failed_h2_done_def Let_def removeAt_def)

section \<open>Inclusion visit\<close>

lemma readValue_hash_insert:
  "readValue {} (hash_insert key x h) k =
     (if k = key then insert x (readValue {} h key) else readValue {} h k)"
  by (simp add: hash_insert_def readValue_def AList.update_conv')

lemma map_of_hash_insert_other:
  "k \<noteq> key \<Longrightarrow> map_of (hash_insert key x h) k = map_of h k"
  by (simp add: hash_insert_def AList.update_conv')

lemma readValue_fold_hash_insert:
  "readValue {} (fold (\<lambda>f. hash_insert key (c f)) fs h) key = readValue {} h key \<union> c ` set fs"
  by (induction fs arbitrary: h) (auto simp: readValue_hash_insert)

lemma map_of_fold_hash_insert_other:
  "k \<noteq> key \<Longrightarrow> map_of (fold (\<lambda>f. hash_insert key (c f)) fs h) k = map_of h k"
  by (induction fs arbitrary: h) (auto simp: map_of_hash_insert_other)

lemma map_of_hash_insert_same:
  "map_of (hash_insert key x h) key = Some (insert x (readValue {} h key))"
  by (simp add: hash_insert_def AList.update_conv')

lemma map_of_fold_hash_insert_same:
  "map_of (fold (\<lambda>f. hash_insert key (c f)) (f0 # fs) h) key =
     Some (readValue {} h key \<union> c ` set (f0 # fs))"
proof (induction fs arbitrary: h f0)
  case Nil
  then show ?case by (simp add: map_of_hash_insert_same)
next
  case (Cons f1 fs)
  have "map_of (fold (\<lambda>f. hash_insert key (c f)) (f0 # f1 # fs) h) key =
        map_of (fold (\<lambda>f. hash_insert key (c f)) (f1 # fs) (hash_insert key (c f0) h)) key"
    by simp
  also have "\<dots> = Some (readValue {} (hash_insert key (c f0) h) key \<union> c ` set (f1 # fs))"
    by (rule Cons.IH)
  finally show ?case
    by (auto simp: readValue_hash_insert)
qed

text \<open>
  C8 (as the code has it). For an included file that passes the two filters, the visitor adds
  to the entry of the file's canonical path the canonical path of every frame of the
  include stack, and the path itself when the stack is empty; other entries are untouched.
  So a file that is reported with an empty include stack (a file that nothing includes: the
  main file) and has no entry yet maps to the set holding only itself, and a translation
  unit that includes nothing has this single entry; a file that is reported with a
  non-empty stack and has no entry yet maps to the files of its stack, whether or not it
  includes anything.
\<close>

theorem inclusionVisitor_records_edges:
  "(take 5 cstr \<noteq> ''/usr/'' \<or> take 10 cstr = ''/usr/home/'')
   \<and> (\<forall>arg \<in> set dflt. \<not> contains arg (canon cstr)) \<longrightarrow>
     map_of (job_mDependencies (inclusionVisitor canon dflt is_pch cstr include_stack job))
         (canon cstr)
       = Some (readValue {} (job_mDependencies job) (canon cstr) \<union> canon ` set include_stack
           \<union> (if include_stack = [] then {canon cstr} else {}))
     \<and> readValue {} (job_mDependencies (inclusionVisitor canon dflt is_pch cstr include_stack job))
         (canon cstr)
       = readValue {} (job_mDependencies job) (canon cstr) \<union> canon ` set include_stack
           \<union> (if include_stack = [] then {canon cstr} else {})
     \<and> (\<forall>k. k \<noteq> canon cstr \<longrightarrow>
           map_of (job_mDependencies (inclusionVisitor canon dflt is_pch cstr include_stack job)) k
             = map_of (job_mDependencies job) k)
     \<and> (map_of (job_mDependencies job) (canon cstr) = None \<longrightarrow>
           map_of (job_mDependencies (inclusionVisitor canon dflt is_pch cstr [] job)) (canon cstr)
             = Some {canon cstr})
     \<and> (map_of (job_mDependencies job) (canon cstr) = None \<and> include_stack \<noteq> [] \<longrightarrow>
           map_of (job_mDependencies (inclusionVisitor canon dflt is_pch cstr include_stack job))
               (canon cstr)
             = Some (canon ` set include_stack))
     \<and> job_mDependencies (getInclusions canon dflt is_pch [(cstr, [])] new_job)
         = [(canon cstr, {canon cstr})]"
proof (intro impI)
  assume a: "(take 5 cstr \<noteq> ''/usr/'' \<or> take 10 cstr = ''/usr/home/'')
    \<and> (\<forall>arg \<in> set dflt. \<not> contains arg (canon cstr))"
  have m: "\<And>stack. map_of (job_mDependencies (inclusionVisitor canon dflt is_pch cstr stack job))
         (canon cstr)
       = Some (readValue {} (job_mDependencies job) (canon cstr) \<union> canon ` set stack
           \<union> (if stack = [] then {canon cstr} else {}))"
  proof -
    fix stack :: "string list"
    show "map_of (job_mDependencies (inclusionVisitor canon dflt is_pch cstr stack job))
         (canon cstr)
       = Some (readValue {} (job_mDependencies job) (canon cstr) \<union> canon ` set stack
           \<union> (if stack = [] then {canon cstr} else {}))"
    proof (cases stack)
      case Nil
      with a show ?thesis
        by (auto simp: inclusionVisitor_def Let_def map_of_hash_insert_same)
    next
      case (Cons f0 fs)
      with a map_of_fold_hash_insert_same [of "canon cstr" canon f0 fs "job_mDependencies job"]
      show ?thesis
        by (auto simp: inclusionVisitor_def Let_def)
    qed
  qed
  have r: "readValue {} (job_mDependencies (inclusionVisitor canon dflt is_pch cstr include_stack job))
         (canon cstr)
       = readValue {} (job_mDependencies job) (canon cstr) \<union> canon ` set include_stack
           \<union> (if include_stack = [] then {canon cstr} else {})"
    using m [of include_stack] by (simp add: readValue_def)
  have o: "\<forall>k. k \<noteq> canon cstr \<longrightarrow>
           map_of (job_mDependencies (inclusionVisitor canon dflt is_pch cstr include_stack job)) k
             = map_of (job_mDependencies job) k"
    using a by (auto simp: inclusionVisitor_def Let_def map_of_hash_insert_other
        map_of_fold_hash_insert_other)
  have e: "map_of (job_mDependencies job) (canon cstr) = None \<longrightarrow>
           map_of (job_mDependencies (inclusionVisitor canon dflt is_pch cstr [] job)) (canon cstr)
             = Some {canon cstr}"
    using m [of "[]"] by (simp add: readValue_def)
  have n: "map_of (job_mDependencies job) (canon cstr) = None \<and> include_stack \<noteq> [] \<longrightarrow>
           map_of (job_mDependencies (inclusionVisitor canon dflt is_pch cstr include_stack job))
               (canon cstr)
             = Some (canon ` set include_stack)"
    using m [of include_stack] by (simp add: readValue_def)
  have g: "job_mDependencies (getInclusions canon dflt is_pch [(cstr, [])] new_job)
         = [(canon cstr, {canon cstr})]"
    using a by (auto simp: getInclusions_def inclusionVisitor_def Let_def new_job_def
        hash_insert_def readValue_def)
  from m [of include_stack] r o e n g
  show "map_of (job_mDependencies (inclusionVisitor canon dflt is_pch cstr include_stack job))
         (canon cstr)
       = Some (readValue {} (job_mDependencies job) (canon cstr) \<union> canon ` set include_stack
           \<union> (if include_stack = [] then {canon cstr} else {}))
     \<and> readValue {} (job_mDependencies (inclusionVisitor canon dflt is_pch cstr include_stack job))
         (canon cstr)
       = readValue {} (job_mDependencies job) (canon cstr) \<union> canon ` set include_stack
           \<union> (if include_stack = [] then {canon cstr} else {})
     \<and> (\<forall>k. k \<noteq> canon cstr \<longrightarrow>
           map_of (job_mDependencies (inclusionVisitor canon dflt is_pch cstr include_stack job)) k
             = map_of (job_mDependencies job) k)
     \<and> (map_of (job_mDependencies job) (canon cstr) = None \<longrightarrow>
           map_of (job_mDependencies (inclusionVisitor canon dflt is_pch cstr [] job)) (canon cstr)
             = Some {canon cstr})
     \<and> (map_of (job_mDependencies job) (canon cstr) = None \<and> include_stack \<noteq> [] \<longrightarrow>
           map_of (job_mDependencies (inclusionVisitor canon dflt is_pch cstr include_stack job))
               (canon cstr)
             = Some (canon ` set include_stack))
     \<and> job_mDependencies (getInclusions canon dflt is_pch [(cstr, [])] new_job)
         = [(canon cstr, {canon cstr})]"
    by blast
qed

theorem inclusionVisitor_records_edges_witness:
  "take 5 ''/src/a.h'' \<noteq> ''/usr/''
   \<and> \<not> contains ''-I/opt/include'' ''/src/a.h''
   \<and> map_of
        (job_mDependencies
          (inclusionVisitor same_path [''-I/opt/include''] False ''/src/a.h''
             [''/src/b.h'', ''/src/a.cpp''] new_job)) ''/src/a.h''
       = Some {''/src/b.h'', ''/src/a.cpp''}
   \<and> job_mDependencies (getInclusions same_path [''-I/opt/include''] False [(''/src/a.cpp'', [])] new_job)
       = [(''/src/a.cpp'', {''/src/a.cpp''})]"
proof -
  have f: "take 5 ''/src/a.h'' \<noteq> ''/usr/''" "take 5 ''/src/a.cpp'' \<noteq> ''/usr/''"
    by simp_all
  have c: "\<not> contains ''-I/opt/include'' ''/src/a.h''" "\<not> contains ''-I/opt/include'' ''/src/a.cpp''"
    by simp_all
  note t = inclusionVisitor_records_edges
  have 1: "map_of
        (job_mDependencies
          (inclusionVisitor same_path [''-I/opt/include''] False ''/src/a.h''
             [''/src/b.h'', ''/src/a.cpp''] new_job)) ''/src/a.h''
       = Some {''/src/b.h'', ''/src/a.cpp''}"
    using t [of "''/src/a.h''" "[''-I/opt/include'']" same_path False
        "[''/src/b.h'', ''/src/a.cpp'']" new_job] f c
    by (simp add: same_path_def new_job_def readValue_def)
  have 2: "job_mDependencies (getInclusions same_path [''-I/opt/include''] False [(''/src/a.cpp'', [])] new_job)
       = [(''/src/a.cpp'', {''/src/a.cpp''})]"
    using t [of "''/src/a.cpp''" "[''-I/opt/include'']" same_path False "[]" new_job] f c
    by (simp add: same_path_def)
  from f c 1 2 show ?thesis by blast
qed

text \<open>
  C8 as stated fails: \<^verbatim>\<open>/src/h.h\<close> includes nothing and is included by \<^verbatim>\<open>/src/a.cpp\<close>; it
  maps to the set holding \<^verbatim>\<open>/src/a.cpp\<close>, not to the set holding itself.
\<close>

theorem inclusionVisitor_leaf_header_counterexample:
  "job_mDependencies
     (getInclusions same_path [] False
        [(''/src/a.cpp'', []), (''/src/h.h'', [''/src/a.cpp''])] new_job)
     = [(''/src/a.cpp'', {''/src/a.cpp''}), (''/src/h.h'', {''/src/a.cpp''})]
   \<and> ''/src/h.h'' \<notin> {''/src/a.cpp''}"
  by (simp add: getInclusions_def inclusionVisitor_def same_path_def new_job_def hash_insert_def
      readValue_def Let_def)

section \<open>Watch registry\<close>

text \<open>
  The branch for a changed file without an entry in the dependency map, evaluated at a
  state written by hand: \<^verbatim>\<open>/src/a.h\<close> is watched, has changed and has no entry. The handler
  advances \<^verbatim>\<open>it\<close>, the iterator over the watched directories. When \<^verbatim>\<open>/src/b.cpp\<close> has
  changed too, the next erase goes through the moved iterator; when nothing else has
  changed, the pending file is re-armed in the set of the next directory. No run of the
  program produces such a state: \<^verbatim>\<open>commitDependencies\<close> creates watched pairs only for keys
  that it also puts into the dependency map, and no key is ever removed.
\<close>

lemma onDirectoryChanged_at_written_miss:
  "map_of (impl_dependencies src_and_inc) ''/src/a.h'' = None
   \<and> onDirectoryChanged both_touched opens_all b_cpp_information src_and_inc ''/src/''
       = Inl InvalidIterator
   \<and> onDirectoryChanged a_h_touched opens_all b_cpp_information src_and_inc ''/src/''
       = Inr (src_and_inc
                \<lparr> watched := [(''/src/'', [(''b.cpp'', 1)]), (''/inc/'', [(''a.h'', 2), (''c.h'', 5)])] \<rparr>,
              Some \<lparr> mDirty = {''/src/a.h''}, mToIndexPch = [], mToIndex = [] \<rparr>)"
  by (simp add: onDirectoryChanged_def src_and_inc_def both_touched_def a_h_touched_def
      opens_all_def b_cpp_information_def Let_def fileName_def)

section \<open>Dirty job\<close>

















lemma indexOf_negative_iff: "(indexOf xs x < 0) = (x \<notin> set xs)"
  by (induction xs) auto

lemma indexOf_ge: "- 1 \<le> indexOf xs x"
  by (induction xs) auto

lemma lastIndexOf_found: "x \<in> set xs \<Longrightarrow> lastIndexOf xs x \<noteq> - 1"
proof -
  assume a: "x \<in> set xs"
  then have n: "\<not> indexOf (rev xs) x < 0"
    by (simp add: indexOf_negative_iff)
  have "indexOf (rev xs) x < int (length xs)"
  proof -
    have "\<And>ys. indexOf ys x < int (length ys) " 
    proof -
      fix ys show "indexOf ys x < int (length ys)"
        by (induction ys) auto
    qed
    from this [of "rev xs"] show ?thesis by simp
  qed
  with n show ?thesis
    by (simp add: lastIndexOf_def Let_def)
qed

lemma sweep_symbols_completes:
  "\<forall>(k, v) \<in> set t. CHR '','' \<in> set k \<Longrightarrow> \<exists>batch. sweep_symbols d t = Inr batch"
proof (induction t)
  case Nil
  then show ?case by simp
next
  case (Cons e t)
  obtain k v where e: "e = (k, v)" by (cases e)
  with Cons.prems have "lastIndexOf k CHR '','' \<noteq> - 1"
    by (simp add: lastIndexOf_found)
  then have "\<exists>ops. dirty_symbol d k v = Inr ops"
    by (cases "cursor_dirty d v") (simp add: dirty_symbol_def Let_def)
  then obtain ops where "dirty_symbol d k v = Inr ops" ..
  moreover from Cons obtain batch where "sweep_symbols d t = Inr batch"
    by auto
  ultimately show ?case by (simp add: e)
qed

lemma dirty_completes:
  "opens Symbol \<Longrightarrow> opens SymbolName \<Longrightarrow> \<forall>(k, v) \<in> set (symbolDb st). CHR '','' \<in> set k \<Longrightarrow>
   \<exists>st'. dirty opens d st = Inr st'"
  using sweep_symbols_completes [of "symbolDb st" d]
  by (auto simp: dirty_def Let_def)





end
